theory Spec2Isabelle
  imports Complex_Main "HOL-Library.Word" "HOL-Library.Multiset" "HOL-Library.Log_Nat"
begin

unbundle bit_operations_syntax

section \<open>Data model (src/main.ts, interfaces at the top of the file)\<close>

text \<open>
  A JavaScript number is modelled by the real number it denotes; the product and the
  quotient of the score computation are rounded to double precision (\<open>fl\<close> below).
  Outside the model are the exponent range of doubles (overflow, subnormal numbers),
  the sign of zero, and the rounding of the two sums in the bounds test, which can only
  matter for a point that lies on the right or bottom edge of a box. A property that
  may be absent from a fetched JSON object is an \<open>option\<close>: \<open>None\<close> is JavaScript's
  \<open>undefined\<close>. Strings that are only compared, stored and concatenated are HOL
  strings.
\<close>

text \<open>\<open>absoluteBoundingBox\<close> of the structure graph: \<open>{x, y, width, height}\<close>.\<close>

record Bounds =
  box_x :: "real option"
  box_y :: "real option"
  box_width :: "real option"
  box_height :: "real option"

text \<open>
  A node of the fetched structure graph. The code reads \<open>id\<close>, \<open>type\<close>, \<open>name\<close>,
  \<open>absoluteBoundingBox\<close> and \<open>children\<close>; a node without \<open>children\<close> and a node with an
  empty array behave alike (\<open>if (node.children) for (...)\<close>), so both are \<open>[]\<close>.
\<close>

datatype node = Node
  (node_id: string)
  (node_type: string)
  (node_name: string)
  (absoluteBoundingBox: "Bounds option")
  (children: "node list")

text \<open>The JSON body of the file endpoint; the code only reads \<open>document\<close>.\<close>

record fileData =
  document :: "node option"

record FrameInfo =
  nodeId :: string
  frameName :: string
  pageName :: string
  fullPath :: string

text \<open>
  \<open>lastUpdated\<close> is written with \<open>new Date().toISOString()\<close> and read back with
  \<open>new Date(..).getTime()\<close>: it is modelled as the millisecond timestamp itself.
\<close>

record FrameCache =
  fileKey :: string
  lastUpdated :: int
  frameMap :: "string \<rightharpoonup> FrameInfo"
  fileStructure :: "fileData option"

type_synonym cache = "string \<rightharpoonup> FrameCache"

text \<open>Exceptions that the modelled code can raise.\<close>

datatype exn = TypeError | InvalidCharacterError

section \<open>FrameInfoFetcher: tree helpers\<close>

definition isFrameNode :: "node \<Rightarrow> bool" where
  "isFrameNode n \<longleftrightarrow>
     node_type n = ''FRAME'' \<or> node_type n = ''COMPONENT'' \<or> node_type n = ''INSTANCE''"

text \<open>\<open>Array.prototype.join\<close>.\<close>

fun join :: "string \<Rightarrow> string list \<Rightarrow> string" where
  "join sep [] = []"
| "join sep [s] = s"
| "join sep (s # t # ts) = s @ sep @ join sep (t # ts)"

text \<open>\<open>a || b\<close> on strings: the empty string is falsy.\<close>

definition or_else :: "string \<Rightarrow> string \<Rightarrow> string" where
  "or_else a b = (if a = [] then b else a)"

subsection \<open>\<open>findFrameInfo\<close> (resolve by identifier)\<close>

text \<open>
  The inner closure \<open>findNode(node, currentPath)\<close>. It returns whether the identifier
  occurs in the subtree; \<open>frameFound\<close> is set exactly when it returns true. The
  argument \<open>currentPath\<close> is extended on the way down, as in the source, and is never
  read.
\<close>

fun findNode :: "string \<Rightarrow> node \<Rightarrow> node list \<Rightarrow> bool"
  and findNode_children :: "string \<Rightarrow> node \<Rightarrow> node list \<Rightarrow> node list \<Rightarrow> bool" where
  "findNode target (Node i t n b cs) currentPath =
     (if i = target then True
      else findNode_children target (Node i t n b cs) cs currentPath)"
| "findNode_children target parent [] currentPath = False"
| "findNode_children target parent (child # rest) currentPath =
     (if findNode target child (currentPath @ [parent]) then True
      else findNode_children target parent rest currentPath)"

text \<open>
  The loop over \<open>fileData.document.children\<close>. The loop state is \<open>pageName\<close> (assigned for
  every canvas tried) and \<open>path\<close> (which receives \<open>path.unshift(page)\<close> on success); the
  result also says whether \<open>frameFound\<close> was set.
\<close>

fun search_pages :: "string \<Rightarrow> node list \<Rightarrow> string \<Rightarrow> node list \<Rightarrow> bool \<times> string \<times> node list" where
  "search_pages target [] pageName0 path = (False, pageName0, path)"
| "search_pages target (page # pages) pageName0 path =
     (if node_type page = ''CANVAS'' then
        (if findNode target page [page] then (True, node_name page, page # path)
         else search_pages target pages (node_name page) path)
      else search_pages target pages pageName0 path)"

definition findFrameInfo :: "string \<Rightarrow> fileData \<Rightarrow> FrameInfo option" where
  "findFrameInfo target fd =
     (let (frameFound, pageName1, path) =
            (case document fd of
               None \<Rightarrow> (False, [], [])
             | Some doc \<Rightarrow> search_pages target (children doc) [] [])
      in if \<not> frameFound then None
         else
           let frames = filter isFrameNode path;
               frameName1 = (if length frames > 0 then node_name (last frames) else ''Root'');
               fullPath1 = join '' > '' (map node_name (drop 1 path))
           in Some \<lparr>nodeId = target, frameName = frameName1, pageName = pageName1,
                     fullPath = or_else fullPath1 frameName1\<rparr>)"

subsection \<open>Geometry and scores\<close>

text \<open>
  Rounding to double precision (IEEE 754 binary64): a significand of 53 bits, rounding
  to nearest, ties to the even significand. \<open>expo v\<close> is the exponent \<open>e\<close> of a positive
  \<open>v\<close>, with \<open>2^e \<le> v < 2^(e+1)\<close>; \<open>rne\<close> rounds to the nearest integer, ties to even.
\<close>

definition expo :: "real \<Rightarrow> int" where
  "expo v = (if 1 \<le> v then bitlen \<lfloor>v\<rfloor> - 1 else - bitlen (\<lceil>1 / v\<rceil> - 1))"

definition rne :: "real \<Rightarrow> int" where
  "rne t =
     (let f = \<lfloor>t\<rfloor>; r = t - of_int f
      in if r < 1 / 2 then f
         else if 1 / 2 < r then f + 1
         else if even f then f else f + 1)"

definition fl :: "real \<Rightarrow> real" where
  "fl x =
     (if x = 0 then 0
      else (let u = 2 powi (expo \<bar>x\<bar> - 52)
            in sgn x * of_int (rne (\<bar>x\<bar> / u)) * u))"

text \<open>
  Values of the arithmetic in \<open>findFrameAtCoordinates\<close>: a finite number, \<open>Infinity\<close>
  (a positive number divided by zero) or \<open>NaN\<close> (arithmetic on \<open>undefined\<close>).
\<close>

datatype jsnum = Num real | PosInf | NaN

text \<open>
  \<open>a + b\<close> and \<open>a * b\<close> where an operand may be \<open>undefined\<close>. The product (the area of
  a box) is rounded to a double.
\<close>

definition js_add :: "real option \<Rightarrow> real option \<Rightarrow> jsnum" where
  "js_add a b = (case (a, b) of (Some u, Some v) \<Rightarrow> Num (u + v) | _ \<Rightarrow> NaN)"

definition js_mul :: "real option \<Rightarrow> real option \<Rightarrow> jsnum" where
  "js_mul a b = (case (a, b) of (Some u, Some v) \<Rightarrow> Num (fl (u * v)) | _ \<Rightarrow> NaN)"

text \<open>
  \<open>k / a\<close> for a positive constant \<open>k\<close>: division by zero is \<open>Infinity\<close> in JavaScript
  (HOL's \<open>k / 0 = 0\<close> is not what the program computes), and any other quotient is
  rounded to a double.
\<close>

definition js_div_pos :: "real \<Rightarrow> jsnum \<Rightarrow> jsnum" where
  "js_div_pos k a =
     (case a of Num v \<Rightarrow> (if v = 0 then PosInf else Num (fl (k / v)))
              | PosInf \<Rightarrow> Num 0
              | NaN \<Rightarrow> NaN)"

text \<open>\<open>a > b\<close>, \<open>a >= b\<close>, \<open>a <= b\<close>: every comparison with \<open>NaN\<close> is false.\<close>

fun js_gt :: "jsnum \<Rightarrow> jsnum \<Rightarrow> bool" where
  "js_gt (Num a) (Num b) = (a > b)"
| "js_gt PosInf (Num b) = True"
| "js_gt _ _ = False"

definition js_ge :: "real \<Rightarrow> real option \<Rightarrow> bool" where
  "js_ge a b = (case b of Some v \<Rightarrow> a \<ge> v | None \<Rightarrow> False)"

fun js_le :: "real \<Rightarrow> jsnum \<Rightarrow> bool" where
  "js_le a (Num b) = (a \<le> b)"
| "js_le a PosInf = True"
| "js_le a NaN = False"

definition isPointInBounds :: "real \<Rightarrow> real \<Rightarrow> Bounds \<Rightarrow> bool" where
  "isPointInBounds x y bounds \<longleftrightarrow>
     js_ge x (box_x bounds) \<and>
     js_le x (js_add (box_x bounds) (box_width bounds)) \<and>
     js_ge y (box_y bounds) \<and>
     js_le y (js_add (box_y bounds) (box_height bounds))"

subsection \<open>\<open>traverseNodes\<close>\<close>

text \<open>
  Pre-order traversal with a callback. The callback of the source mutates variables of
  the enclosing function; here it transforms a state \<open>'s\<close>.
\<close>

fun traverseNodes :: "node \<Rightarrow> (node \<Rightarrow> node list \<Rightarrow> 's \<Rightarrow> 's) \<Rightarrow> node list \<Rightarrow> 's \<Rightarrow> 's" where
  "traverseNodes (Node i t n b cs) callback path s =
     (let currentPath = path @ [Node i t n b cs]
      in fold (\<lambda>child. traverseNodes child callback currentPath) cs
           (callback (Node i t n b cs) currentPath s))"

subsection \<open>\<open>buildFrameInfoFromPath\<close>\<close>

text \<open>\<open>path.findIndex(p)\<close>: the first index whose element satisfies \<open>p\<close>, or \<open>-1\<close>.\<close>

fun findIndex :: "('a \<Rightarrow> bool) \<Rightarrow> 'a list \<Rightarrow> int" where
  "findIndex p [] = -1"
| "findIndex p (a # as) =
     (if p a then 0 else (let r = findIndex p as in if r < 0 then -1 else r + 1))"

definition buildFrameInfoFromPath :: "node \<Rightarrow> node list \<Rightarrow> FrameInfo" where
  "buildFrameInfoFromPath nd path =
     (let page = find (\<lambda>n. node_type n = ''CANVAS'') path;
          pageName1 = (case page of Some p \<Rightarrow> node_name p | None \<Rightarrow> ''Unknown Page'');
          pageIndex = findIndex (\<lambda>n. node_type n = ''CANVAS'') path;
          framePathNodes = drop (nat (pageIndex + 1)) path;
          fullPath1 = join '' > '' (map node_name framePathNodes)
      in \<lparr>nodeId = node_id nd, frameName = node_name nd, pageName = pageName1,
          fullPath = or_else fullPath1 (node_name nd)\<rparr>)"

subsection \<open>\<open>findFrameAtCoordinates\<close> (resolve by coordinate)\<close>

text \<open>The three variables that the traversal callback updates.\<close>

record best =
  bestMatchNode :: "node option"
  bestMatchPath :: "node list"
  bestScore :: jsnum

definition best_init :: best where
  "best_init = \<lparr>bestMatchNode = None, bestMatchPath = [], bestScore = Num (-1)\<rparr>"

text \<open>The callback passed to \<open>traverseNodes\<close>, for the point \<open>(x, y)\<close>.\<close>

definition visit :: "real \<Rightarrow> real \<Rightarrow> node \<Rightarrow> node list \<Rightarrow> best \<Rightarrow> best" where
  "visit x y nd path bst =
     (if isFrameNode nd then
        (case absoluteBoundingBox nd of
           None \<Rightarrow> bst
         | Some bounds \<Rightarrow>
             if isPointInBounds x y bounds then
               (let area = js_mul (box_width bounds) (box_height bounds);
                    score = js_div_pos 1000000 area
                in if js_gt score (bestScore bst)
                   then \<lparr>bestMatchNode = Some nd, bestMatchPath = path, bestScore = score\<rparr>
                   else bst)
             else bst)
      else bst)"

text \<open>
  The state of the three variables after the traversal. \<open>fileData.document\<close> may be
  missing: the callback is then called on \<open>undefined\<close> and \<open>isFrameNode\<close> raises a
  \<open>TypeError\<close> on \<open>node.type\<close>.
\<close>

definition scan_frames :: "real \<Rightarrow> real \<Rightarrow> fileData \<Rightarrow> exn + best" where
  "scan_frames x y fd =
     (case document fd of
        None \<Rightarrow> Inl TypeError
      | Some doc \<Rightarrow> Inr (traverseNodes doc (visit x y) [] best_init))"

definition findFrameAtCoordinates :: "real \<Rightarrow> real \<Rightarrow> fileData \<Rightarrow> exn + FrameInfo option" where
  "findFrameAtCoordinates x y fd =
     (case scan_frames x y fd of
        Inl e \<Rightarrow> Inl e
      | Inr bst \<Rightarrow>
          (case bestMatchNode bst of
             Some nd \<Rightarrow> Inr (Some (buildFrameInfoFromPath nd (bestMatchPath bst)))
           | None \<Rightarrow> Inr None))"

section \<open>FrameInfoFetcher: cache and resolver\<close>

text \<open>
  What one call of the resolver observes from outside: the clock at each place where
  the code reads it, the outcome of \<open>requestUrl\<close>, and the conversion of a number to
  a string in a template literal.
\<close>

datatype response =
    Throws                           \<comment> \<open>\<open>requestUrl\<close> rejects (transport error)\<close>
  | Response nat "fileData option"   \<comment> \<open>\<open>response.status\<close> and \<open>response.json\<close> (\<open>None\<close>: a falsy body)\<close>

record env =
  t_read :: int       \<comment> \<open>\<open>Date.now()\<close> in \<open>getCachedFrameInfo\<close>\<close>
  net :: response     \<comment> \<open>what the structure request would yield\<close>
  t_fetched :: int    \<comment> \<open>\<open>new Date()\<close> in \<open>fetchFileStructure\<close>\<close>
  t_cached :: int     \<comment> \<open>\<open>new Date()\<close> in \<open>cacheFrameInfo\<close>\<close>
  numberToString :: "real \<Rightarrow> string"

text \<open>
  The fetcher object: its \<open>cache\<close> field, and a counter of the calls of \<open>requestUrl\<close>
  made so far (the counter is instrumentation, not a variable of the program).
\<close>

record fetcher =
  cache :: cache
  requests :: nat

definition DAY :: int where
  "DAY = 24 * 60 * 60 * 1000"

definition getCachedFrameInfo :: "int \<Rightarrow> cache \<Rightarrow> string \<Rightarrow> string \<Rightarrow> FrameInfo option \<times> cache" where
  "getCachedFrameInfo now c fk nid =
     (case c fk of
        None \<Rightarrow> (None, c)
      | Some entry \<Rightarrow>
          (let cacheAge = now - lastUpdated entry
           in if cacheAge > DAY then (None, c(fk := None))
              else (frameMap entry nid, c)))"

definition fetchFileStructure :: "response \<Rightarrow> int \<Rightarrow> fetcher \<Rightarrow> string \<Rightarrow> fileData option \<times> fetcher" where
  "fetchFileStructure resp now s fk =
     (let s1 = s\<lparr>requests := requests s + 1\<rparr>
      in case resp of
           Throws \<Rightarrow> (None, s1)
         | Response status data \<Rightarrow>
             if status \<noteq> 200 then (None, s1)
             else
               (data,
                if cache s1 fk = None
                then s1\<lparr>cache := (cache s1)(fk \<mapsto>
                        \<lparr>fileKey = fk, lastUpdated = now, frameMap = Map.empty,
                         fileStructure = data\<rparr>)\<rparr>
                else s1))"

definition cacheFrameInfo :: "int \<Rightarrow> cache \<Rightarrow> string \<Rightarrow> string \<Rightarrow> FrameInfo \<Rightarrow> cache" where
  "cacheFrameInfo now c fk nid frameInfo =
     (let c1 = (if c fk = None
                then c(fk \<mapsto> \<lparr>fileKey = fk, lastUpdated = now, frameMap = Map.empty,
                               fileStructure = None\<rparr>)
                else c)
      in case c1 fk of
           Some entry \<Rightarrow> c1(fk \<mapsto> entry\<lparr>frameMap := (frameMap entry)(nid \<mapsto> frameInfo)\<rparr>)
         | None \<Rightarrow> c1)"

definition clearCache :: "fetcher \<Rightarrow> fetcher" where
  "clearCache s = s\<lparr>cache := Map.empty\<rparr>"

text \<open>
  The result of a resolver call: the value the promise settles with (\<open>Inl\<close>: rejected
  with an exception; \<open>Inr None\<close>: \<open>null\<close>) and the fetcher afterwards.
\<close>

type_synonym resolved = "(exn + FrameInfo option) \<times> fetcher"

definition getFrameInfoByNodeId :: "env \<Rightarrow> fetcher \<Rightarrow> string \<Rightarrow> string \<Rightarrow> resolved" where
  "getFrameInfoByNodeId e s fk nid =
     (let (cachedInfo, c1) = getCachedFrameInfo (t_read e) (cache s) fk nid;
          s1 = s\<lparr>cache := c1\<rparr>
      in case cachedInfo of
           Some info \<Rightarrow> (Inr (Some info), s1)
         | None \<Rightarrow>
             (let (structure, s2) = fetchFileStructure (net e) (t_fetched e) s1 fk
              in case structure of
                   None \<Rightarrow> (Inr None, s2)
                 | Some fd \<Rightarrow>
                     (case findFrameInfo nid fd of
                        Some info \<Rightarrow>
                          (Inr (Some info),
                           s2\<lparr>cache := cacheFrameInfo (t_cached e) (cache s2) fk nid info\<rparr>)
                      | None \<Rightarrow> (Inr None, s2))))"

definition coordKey :: "env \<Rightarrow> real \<Rightarrow> real \<Rightarrow> string" where
  "coordKey e x y = ''coord_'' @ numberToString e x @ ''_'' @ numberToString e y"

definition getFrameInfoByCoordinates :: "env \<Rightarrow> fetcher \<Rightarrow> string \<Rightarrow> real \<Rightarrow> real \<Rightarrow> resolved" where
  "getFrameInfoByCoordinates e s fk x y =
     (let key = coordKey e x y;
          (cachedInfo, c1) = getCachedFrameInfo (t_read e) (cache s) fk key;
          s1 = s\<lparr>cache := c1\<rparr>
      in case cachedInfo of
           Some info \<Rightarrow> (Inr (Some info), s1)
         | None \<Rightarrow>
             (let (structure, s2) = fetchFileStructure (net e) (t_fetched e) s1 fk
              in case structure of
                   None \<Rightarrow> (Inr None, s2)
                 | Some fd \<Rightarrow>
                     (case findFrameAtCoordinates x y fd of
                        Inl err \<Rightarrow> (Inl err, s2)
                      | Inr (Some info) \<Rightarrow>
                          (Inr (Some info),
                           s2\<lparr>cache := cacheFrameInfo (t_cached e) (cache s2) fk key info\<rparr>)
                      | Inr None \<Rightarrow> (Inr None, s2))))"

text \<open>
  The public entry point. \<open>coordinates\<close> is optional, and so are its \<open>x\<close> and \<open>y\<close>
  (the code tests both against \<open>undefined\<close>). An empty \<open>nodeId\<close> is falsy.
\<close>

definition getFrameInfo ::
  "env \<Rightarrow> fetcher \<Rightarrow> string \<Rightarrow> string \<Rightarrow> (real option \<times> real option) option \<Rightarrow> resolved" where
  "getFrameInfo e s fk nid coordinates =
     (if nid \<noteq> [] \<and> nid \<noteq> ''0:1'' then getFrameInfoByNodeId e s fk nid
      else
        (case coordinates of
           Some (Some x, Some y) \<Rightarrow> getFrameInfoByCoordinates e s fk x y
         | _ \<Rightarrow> (Inr None, s)))"

subsection \<open>\<open>CoordinateBasedFrameDetector.fetchFileStructure\<close> (src/coordinate-based-frame-detection.js)\<close>

text \<open>
  The second module keeps the structure itself in the cache and reuses it while the
  entry is younger than 24 hours; when it does fetch, it overwrites the entry.
  \<open>response.ok\<close> holds for the statuses 200 to 299.
\<close>

definition detector_fetchFileStructure ::
  "env \<Rightarrow> fetcher \<Rightarrow> string \<Rightarrow> fileData option \<times> fetcher" where
  "detector_fetchFileStructure e s fk =
     (case (case cache s fk of
              Some cached \<Rightarrow>
                if t_read e - lastUpdated cached < DAY then Some (fileStructure cached) else None
            | None \<Rightarrow> None) of
        Some structure \<Rightarrow> (structure, s)
      | None \<Rightarrow>
          (let s1 = s\<lparr>requests := requests s + 1\<rparr>
           in case net e of
                Throws \<Rightarrow> (None, s1)
              | Response status data \<Rightarrow>
                  if \<not> (200 \<le> status \<and> status \<le> 299) then (None, s1)
                  else
                    (data,
                     s1\<lparr>cache := (cache s1)(fk \<mapsto>
                          \<lparr>fileKey = fk, lastUpdated = t_fetched e, frameMap = Map.empty,
                           fileStructure = data\<rparr>)\<rparr>)))"

section \<open>TokenManager\<close>

text \<open>
  A JavaScript string is a sequence of UTF-16 code units. \<open>charCodeAt\<close> reads a code
  unit, \<open>^\<close> is bitwise exclusive or, and \<open>String.fromCharCode\<close> keeps the low 16 bits.
\<close>

type_synonym jsstring = "16 word list"

definition SECRET_KEY :: jsstring where
  "SECRET_KEY = map of_char ''figma-obsidian-sync-2025''"

text \<open>The loop shared by \<open>encrypt\<close> and \<open>decrypt\<close>.\<close>

definition xor_key :: "jsstring \<Rightarrow> jsstring" where
  "xor_key text =
     map (\<lambda>i. (text ! i) XOR (SECRET_KEY ! (i mod length SECRET_KEY))) [0..<length text]"

subsection \<open>\<open>btoa\<close> and \<open>atob\<close>\<close>

text \<open>
  The two functions belong to the platform, not to the repository. They are modelled
  after their definition in the HTML standard: \<open>btoa\<close> is RFC 4648 Base64 of a string
  whose code units are all below 256 and raises \<open>InvalidCharacterError\<close> otherwise;
  \<open>atob\<close> is the standard's forgiving decoder.
\<close>

text \<open>The Base64 alphabet: the character code of a 6-bit value, and back.\<close>

definition b64char :: "nat \<Rightarrow> nat" where
  "b64char v =
     (if v < 26 then 65 + v
      else if v < 52 then 97 + (v - 26)
      else if v < 62 then 48 + (v - 52)
      else if v = 62 then 43
      else 47)"

definition b64val :: "nat \<Rightarrow> nat option" where
  "b64val c =
     (if 65 \<le> c \<and> c \<le> 90 then Some (c - 65)
      else if 97 \<le> c \<and> c \<le> 122 then Some (c - 97 + 26)
      else if 48 \<le> c \<and> c \<le> 57 then Some (c - 48 + 52)
      else if c = 43 then Some 62
      else if c = 47 then Some 63
      else None)"

text \<open>Bytes to 6-bit groups; the last group of one or two bytes is filled with zero bits.\<close>

fun enc_sextets :: "nat list \<Rightarrow> nat list" where
  "enc_sextets [] = []"
| "enc_sextets [a] = [a div 4, (a mod 4) * 16]"
| "enc_sextets [a, b] = [a div 4, (a mod 4) * 16 + b div 16, (b mod 16) * 4]"
| "enc_sextets (a # b # c # rest) =
     [a div 4, (a mod 4) * 16 + b div 16, (b mod 16) * 4 + c div 64, c mod 64]
     @ enc_sextets rest"

definition btoa_codes :: "nat list \<Rightarrow> nat list" where
  "btoa_codes bytes =
     map b64char (enc_sextets bytes) @ replicate ((3 - length bytes mod 3) mod 3) 61"

text \<open>6-bit groups to bytes; left-over bits of a final group of two or three are dropped.\<close>

fun dec_sextets :: "nat list \<Rightarrow> nat list" where
  "dec_sextets (w # x # y # z # rest) =
     [w * 4 + x div 16, (x mod 16) * 16 + y div 4, (y mod 4) * 64 + z] @ dec_sextets rest"
| "dec_sextets [w, x, y] = [w * 4 + x div 16, (x mod 16) * 16 + y div 4]"
| "dec_sextets [w, x] = [w * 4 + x div 16]"
| "dec_sextets _ = []"

text \<open>
  When the length is a multiple of four, one or two trailing \<open>=\<close> (code 61) are
  removed.
\<close>

definition strip_padding :: "nat list \<Rightarrow> nat list" where
  "strip_padding s =
     (if length s mod 4 = 0 \<and> s \<noteq> [] \<and> last s = 61 then
        (let t = butlast s in if t \<noteq> [] \<and> last t = 61 then butlast t else t)
      else s)"

definition ascii_whitespace :: "nat \<Rightarrow> bool" where
  "ascii_whitespace c \<longleftrightarrow> c = 9 \<or> c = 10 \<or> c = 12 \<or> c = 13 \<or> c = 32"

definition atob_codes :: "nat list \<Rightarrow> nat list option" where
  "atob_codes s =
     (let s1 = filter (\<lambda>c. \<not> ascii_whitespace c) s;
          s2 = strip_padding s1
      in if length s2 mod 4 = 1 then None
         else if list_ex (\<lambda>c. b64val c = None) s2 then None
         else Some (dec_sextets (map (\<lambda>c. case b64val c of Some v \<Rightarrow> v | None \<Rightarrow> 0) s2)))"

definition btoa :: "jsstring \<Rightarrow> exn + jsstring" where
  "btoa s =
     (if list_ex (\<lambda>c. c > 255) s then Inl InvalidCharacterError
      else Inr (map of_nat (btoa_codes (map unat s))))"

definition atob :: "jsstring \<Rightarrow> exn + jsstring" where
  "atob s =
     (case atob_codes (map unat s) of
        None \<Rightarrow> Inl InvalidCharacterError
      | Some bytes \<Rightarrow> Inr (map of_nat bytes))"

subsection \<open>\<open>encrypt\<close>, \<open>decrypt\<close>\<close>

text \<open>\<open>encrypt\<close> has no handler: an exception of \<open>btoa\<close> leaves the function.\<close>

definition encrypt :: "jsstring \<Rightarrow> exn + jsstring" where
  "encrypt text =
     (if text = [] then Inr []
      else btoa (xor_key text))"

text \<open>\<open>decrypt\<close> catches every exception and returns the empty string.\<close>

definition decrypt :: "jsstring \<Rightarrow> jsstring" where
  "decrypt encrypted =
     (if encrypted = [] then []
      else
        (case atob encrypted of
           Inl err \<Rightarrow> []
         | Inr text \<Rightarrow> xor_key text))"

section \<open>Rendering the comments document (\<open>saveCommentsToSingleFile\<close>)\<close>

record client_meta =
  meta_node_id :: "string option"
  meta_node_offset :: "(real option \<times> real option) option"

record FigmaComment =
  comment_id :: string
  parent_id :: "string option"
  user_handle :: string
  created_at :: string
  resolved_at :: "string option"   \<comment> \<open>\<open>string | null\<close>\<close>
  message :: string
  client_meta :: "client_meta option"

record FigmaFile =
  file_id :: string
  file_name :: string
  file_key :: string
  enabled :: bool

text \<open>
  The \<open>Date\<close> operations used on the timestamps of a comment: \<open>new Date(s).getTime()\<close>
  (milliseconds, for a string that parses as a date, as the API's timestamps do) and
  \<open>new Date(s).toLocaleString()\<close>.
\<close>

record dates =
  getTime :: "string \<Rightarrow> int"
  toLocaleString :: "string \<Rightarrow> string"

text \<open>
  The document is modelled by the values interpolated into the template, not by the
  text around them: the counters of the header block, and one entry per comment.
\<close>

record header =
  title :: string
  figma_file_key :: string
  total_comments :: nat
  resolved_comments :: nat
  open_comments :: nat

record entry =
  checkbox :: string
  entry_created :: string
  entry_message :: string
  entry_author :: string
  entry_frame :: "FrameInfo option"
  entry_status :: string

record rendered =
  head_block :: header
  entries :: "entry list"

text \<open>Truthiness of a value of type \<open>string | null\<close>: \<open>null\<close> and \<open>""\<close> are falsy.\<close>

definition truthy :: "string option \<Rightarrow> bool" where
  "truthy v = (case v of None \<Rightarrow> False | Some str \<Rightarrow> str \<noteq> [])"

text \<open>\<open>message.replace(/\n/g, '\n    ')\<close>.\<close>

definition indent_lines :: "string \<Rightarrow> string" where
  "indent_lines m = concat (map (\<lambda>ch. if ch = CHR 0x0A then CHR 0x0A # ''    '' else [ch]) m)"

text \<open>
  \<open>comments.sort((a, b) => new Date(b.created_at).getTime() - new Date(a.created_at).getTime())\<close>.
  \<open>Array.prototype.sort\<close> is stable, and the comparator is a total preorder, so the
  result is the stable sort by descending time: HOL's stable \<open>sort_key\<close> on the negated
  time.
\<close>

definition sort_comments :: "dates \<Rightarrow> FigmaComment list \<Rightarrow> FigmaComment list" where
  "sort_comments d comments = sort_key (\<lambda>c. - getTime d (created_at c)) comments"

text \<open>
  The frame lookup inside the loop: made only when the setting is on, the fetcher
  exists and the comment has a truthy \<open>client_meta.node_id\<close>. An exception of the
  resolver leaves the loop.
\<close>

definition frame_lookup ::
  "bool \<Rightarrow> string \<Rightarrow> env \<Rightarrow> fetcher option \<Rightarrow> FigmaComment
     \<Rightarrow> exn + (FrameInfo option \<times> fetcher option)" where
  "frame_lookup fetchFrameInfo key e frameInfoFetcher c =
     (case (frameInfoFetcher, client_meta c) of
        (Some f, Some m) \<Rightarrow>
          if fetchFrameInfo \<and> truthy (meta_node_id m) then
            (case getFrameInfo e f key (case meta_node_id m of Some i \<Rightarrow> i | None \<Rightarrow> [])
                    (meta_node_offset m) of
               (Inl err, f') \<Rightarrow> Inl err
             | (Inr frameInfo, f') \<Rightarrow> Inr (frameInfo, Some f'))
          else Inr (None, frameInfoFetcher)
      | _ \<Rightarrow> Inr (None, frameInfoFetcher))"

text \<open>
  The loop over the sorted comments. \<open>envs k\<close> is what the resolver call for the
  \<open>k\<close>-th entry would observe.
\<close>

fun render_entries ::
  "dates \<Rightarrow> bool \<Rightarrow> string \<Rightarrow> (nat \<Rightarrow> env) \<Rightarrow> nat \<Rightarrow> fetcher option \<Rightarrow> FigmaComment list
     \<Rightarrow> exn + (entry list \<times> fetcher option)" where
  "render_entries d fetchFrameInfo key envs k fo [] = Inr ([], fo)"
| "render_entries d fetchFrameInfo key envs k fo (c # cs) =
     (let isResolved = (resolved_at c \<noteq> None);
          box = (if isResolved then ''- [x]'' else ''- [ ]'');
          resolvedInfo =
            (case resolved_at c of
               Some r \<Rightarrow> ''Resolved: '' @ toLocaleString d r
             | None \<Rightarrow> ''Open'')
      in case frame_lookup fetchFrameInfo key (envs k) fo c of
           Inl err \<Rightarrow> Inl err
         | Inr (frameInfo, fo1) \<Rightarrow>
             (case render_entries d fetchFrameInfo key envs (k + 1) fo1 cs of
                Inl err \<Rightarrow> Inl err
              | Inr (es, fo2) \<Rightarrow>
                  Inr (\<lparr>checkbox = box,
                        entry_created = toLocaleString d (created_at c),
                        entry_message = indent_lines (message c),
                        entry_author = user_handle c,
                        entry_frame = frameInfo,
                        entry_status = resolvedInfo\<rparr> # es, fo2)))"

definition saveCommentsToSingleFile ::
  "dates \<Rightarrow> bool \<Rightarrow> fetcher option \<Rightarrow> (nat \<Rightarrow> env) \<Rightarrow> FigmaFile \<Rightarrow> FigmaComment list
     \<Rightarrow> exn + (rendered \<times> fetcher option)" where
  "saveCommentsToSingleFile d fetchFrameInfo fo envs file comments =
     (let hd_block =
            \<lparr>title = file_name file @ '' - Figma Comments'',
             figma_file_key = file_key file,
             total_comments = length comments,
             resolved_comments = length (filter (\<lambda>c. truthy (resolved_at c)) comments),
             open_comments = length (filter (\<lambda>c. \<not> truthy (resolved_at c)) comments)\<rparr>;
          sortedComments = sort_comments d comments
      in case render_entries d fetchFrameInfo (file_key file) envs 0 fo sortedComments of
           Inl err \<Rightarrow> Inl err
         | Inr (es, fo1) \<Rightarrow> Inr (\<lparr>head_block = hd_block, entries = es\<rparr>, fo1))"

section \<open>Notions used to state the properties\<close>

text \<open>
  The sequence of the calls that \<open>traverseNodes\<close> makes to its callback: every node
  with its path from the starting node, a node before its children, the children from
  left to right.
\<close>

fun preorder :: "node \<Rightarrow> node list \<Rightarrow> (node \<times> node list) list" where
  "preorder (Node i t n b cs) path =
     (Node i t n b cs, path @ [Node i t n b cs])
     # concat (map (\<lambda>child. preorder child (path @ [Node i t n b cs])) cs)"

text \<open>
  A candidate for the point \<open>(x, y)\<close>: a node of container kind that has a bounding
  box containing the point.
\<close>

definition candidate :: "real \<Rightarrow> real \<Rightarrow> node \<times> node list \<Rightarrow> bool" where
  "candidate x y c =
     (case absoluteBoundingBox (fst c) of
        None \<Rightarrow> False
      | Some bounds \<Rightarrow> isFrameNode (fst c) \<and> isPointInBounds x y bounds)"

text \<open>The area \<open>width * height\<close> of the box of a node whose box has both.\<close>

definition box_area :: "node \<Rightarrow> real" where
  "box_area nd =
     (case absoluteBoundingBox nd of
        None \<Rightarrow> 0
      | Some bounds \<Rightarrow>
          (case (box_width bounds, box_height bounds) of
             (Some w, Some h) \<Rightarrow> w * h
           | _ \<Rightarrow> 0))"

text \<open>
  The score of a box of exact area \<open>a\<close> in double arithmetic: the area rounded, then
  \<open>1000000 / area\<close> rounded, and \<open>Infinity\<close> for the area zero.
\<close>

definition score_of :: "real \<Rightarrow> jsnum" where
  "score_of a = (if fl a = 0 then PosInf else Num (fl (1000000 / fl a)))"


text \<open>The node that \<open>findFrameAtCoordinates\<close> holds in \<open>bestMatchNode\<close> after the traversal.\<close>

definition selected :: "real \<Rightarrow> real \<Rightarrow> fileData \<Rightarrow> node option" where
  "selected x y fd = (case scan_frames x y fd of Inl err \<Rightarrow> None | Inr bst \<Rightarrow> bestMatchNode bst)"

text \<open>
  The key under which a resolver call stores its result: the anchor identifier, or the
  string made from the coordinates.
\<close>

definition resolution_key :: "env \<Rightarrow> string \<Rightarrow> (real option \<times> real option) option \<Rightarrow> string option" where
  "resolution_key e nid coordinates =
     (if nid \<noteq> [] \<and> nid \<noteq> ''0:1'' then Some nid
      else
        (case coordinates of
           Some (Some x, Some y) \<Rightarrow> Some (coordKey e x y)
         | _ \<Rightarrow> None))"

text \<open>The structure request fails: a transport error or a status other than 200.\<close>

definition fetch_fails :: "response \<Rightarrow> bool" where
  "fetch_fails r = (case r of Throws \<Rightarrow> True | Response status data \<Rightarrow> status \<noteq> 200)"

text \<open>
  The shape that \<open>getFrameInfoByNodeId\<close> and \<open>getFrameInfoByCoordinates\<close> share: look the
  key up, else fetch the structure, search it, and store what was found.
\<close>

definition resolve_with :: "env \<Rightarrow> fetcher \<Rightarrow> string \<Rightarrow> string \<Rightarrow> (fileData \<Rightarrow> exn + FrameInfo option) \<Rightarrow> resolved" where
  "resolve_with e s fk key search =
    (case getCachedFrameInfo (t_read e) (cache s) fk key of
       (Some info, c1) \<Rightarrow> (Inr (Some info), s\<lparr>cache := c1\<rparr>)
     | (None, c1) \<Rightarrow>
        (case fetchFileStructure (net e) (t_fetched e) (s\<lparr>cache := c1\<rparr>) fk of
           (None, s2) \<Rightarrow> (Inr None, s2)
         | (Some fd, s2) \<Rightarrow>
            (case search fd of
               Inl err \<Rightarrow> (Inl err, s2)
             | Inr (Some info) \<Rightarrow> (Inr (Some info), s2\<lparr>cache := cacheFrameInfo (t_cached e) (cache s2) fk key info\<rparr>)
             | Inr None \<Rightarrow> (Inr None, s2))))"

subsection \<open>Example inputs\<close>

definition rect :: "real \<Rightarrow> real \<Rightarrow> real \<Rightarrow> real \<Rightarrow> Bounds" where
  "rect x y w h = \<lparr>box_x = Some x, box_y = Some y, box_width = Some w, box_height = Some h\<rparr>"

text \<open>A page with a frame \<open>Header\<close> that contains a text node.\<close>

definition ex_title :: node where
  "ex_title = Node ''1:3'' ''TEXT'' ''Title'' (Some (rect 10 10 80 20)) []"

definition ex_header :: node where
  "ex_header = Node ''1:2'' ''FRAME'' ''Header'' (Some (rect 0 0 100 50)) [ex_title]"

definition ex_page :: node where
  "ex_page = Node ''0:1'' ''CANVAS'' ''Page 1'' None [ex_header]"

definition ex_file :: fileData where
  "ex_file = \<lparr>document = Some (Node ''0:0'' ''DOCUMENT'' ''Document'' None [ex_page])\<rparr>"

text \<open>
  Two overlapping frames of areas 100 and 50 that both contain the point \<open>(5, 5)\<close>, the
  smaller one nested in the larger one.
\<close>

definition ex_inner :: node where
  "ex_inner = Node ''2:2'' ''FRAME'' ''Inner'' (Some (rect 0 0 10 5)) []"

definition ex_outer :: node where
  "ex_outer = Node ''2:1'' ''FRAME'' ''Outer'' (Some (rect 0 0 10 10)) [ex_inner]"

definition ex_overlap :: fileData where
  "ex_overlap = \<lparr>document = Some (Node ''0:0'' ''DOCUMENT'' ''Document'' None
       [Node ''0:1'' ''CANVAS'' ''Page 1'' None [ex_outer]])\<rparr>"




text \<open>A frame of area 100 that contains a frame whose box has width 0.\<close>

definition ex_line :: node where
  "ex_line = Node ''3:2'' ''FRAME'' ''Divider'' (Some (rect 5 0 0 10)) []"

definition ex_degenerate :: fileData where
  "ex_degenerate = \<lparr>document = Some (Node ''0:0'' ''DOCUMENT'' ''Document'' None
       [Node ''0:1'' ''CANVAS'' ''Page 1'' None
          [Node ''3:1'' ''FRAME'' ''Card'' (Some (rect 0 0 10 10)) [ex_line]]])\<rparr>"

text \<open>
  A cache that holds, for the file key \<open>K\<close>, an entry written at time 1000 with one
  resolved anchor; and what a resolver call observes at a given time from a network
  that answers with \<open>ex_file\<close>.
\<close>

definition ex_info :: FrameInfo where
  "ex_info = \<lparr>nodeId = ''1:2'', frameName = ''Root'', pageName = ''Page 1'', fullPath = ''Root''\<rparr>"

definition ex_entry :: FrameCache where
  "ex_entry = \<lparr>fileKey = ''K'', lastUpdated = 1000, frameMap = [''1:2'' \<mapsto> ex_info],
               fileStructure = None\<rparr>"

definition ex_cache :: cache where
  "ex_cache = [''K'' \<mapsto> ex_entry]"

definition ex_env :: "int \<Rightarrow> response \<Rightarrow> env" where
  "ex_env t r = \<lparr>t_read = t, net = r, t_fetched = t + 1, t_cached = t + 2,
                 numberToString = (\<lambda>v. if v = 5 then ''5'' else ''?'')\<rparr>"

text \<open>
  Three comments on the file with key \<open>ABC123XYZ\<close>, two open and one resolved, given
  oldest first; \<open>ex_dates\<close> reads the four timestamps that occur in them.
\<close>

definition ex_comment :: "string \<Rightarrow> string \<Rightarrow> string option \<Rightarrow> string \<Rightarrow> FigmaComment" where
  "ex_comment i created resolved msg =
     \<lparr>comment_id = i, parent_id = None, user_handle = ''kato'', created_at = created,
      resolved_at = resolved, message = msg, client_meta = None\<rparr>"

definition ex_comments :: "FigmaComment list" where
  "ex_comments =
     [ex_comment ''c1'' ''2025-07-18T10:00:00Z'' None ''first'',
      ex_comment ''c2'' ''2025-07-19T10:00:00Z'' (Some ''2025-07-21T10:00:00Z'') ''second'',
      ex_comment ''c3'' ''2025-07-20T10:00:00Z'' None ''third'']"

definition ex_dates :: dates where
  "ex_dates =
     \<lparr>getTime = (\<lambda>str. if str = ''2025-07-18T10:00:00Z'' then 1752832800000
                        else if str = ''2025-07-19T10:00:00Z'' then 1752919200000
                        else if str = ''2025-07-20T10:00:00Z'' then 1753005600000
                        else if str = ''2025-07-21T10:00:00Z'' then 1753092000000
                        else 0),
      toLocaleString = (\<lambda>str. str)\<rparr>"

definition ex_figma_file :: FigmaFile where
  "ex_figma_file = \<lparr>file_id = ''1'', file_name = ''Design'', file_key = ''ABC123XYZ'', enabled = True\<rparr>"

section \<open>Properties\<close>

subsection \<open>The placeholder anchor\<close>

text \<open>
  C7. For every file key, \<open>getFrameInfo\<close> with the anchor identifier \<open>"0:1"\<close> and no
  coordinates returns \<open>null\<close>; the fetcher is left as it was (no request is made, the
  cache is not touched), whatever the state of the cache, the clock and the network.
\<close>

theorem placeholder_without_coordinates_absent:
  "getFrameInfo e s fk ''0:1'' None = (Inr None, s)"
  by (simp add: getFrameInfo_def)

subsection \<open>TokenManager: Base64 round trip\<close>

lemma xor_lt_128:
  fixes w k :: "16 word"
  assumes "w < 128" "k < 128"
  shows "w XOR k < 128"
proof -
  have a: "w AND mask 7 = w" using less_mask_eq[of w 7] assms by simp
  have b: "k AND mask 7 = k" using less_mask_eq[of k 7] assms by simp
  have "(w XOR k) AND mask 7 = w XOR k"
    by (simp add: bit.conj_xor_distrib2 a b)
  moreover have "(w XOR k) AND mask 7 < 2 ^ 7"
    by (rule and_mask_less_size) (simp add: word_size)
  ultimately show ?thesis by simp
qed

lemma key_ascii: "\<forall>k \<in> set SECRET_KEY. k < 128"
  by (simp add: SECRET_KEY_def)

lemma b64val_b64char: "i < 64 \<Longrightarrow> b64val (b64char i) = Some i"
  unfolding b64val_def b64char_def by auto

lemma b64char_plain: "i < 64 \<Longrightarrow> \<not> ascii_whitespace (b64char i) \<and> b64char i \<noteq> 61"
  unfolding ascii_whitespace_def b64char_def by auto

lemma enc_sextets_lt: "\<forall>b\<in>set bs. b < 256 \<Longrightarrow> \<forall>v\<in>set (enc_sextets bs). v < 64"
  by (induction bs rule: enc_sextets.induct) (auto simp: div_less_iff_less_mult)

lemma dec_enc_sextets: "\<forall>b\<in>set bs. b < 256 \<Longrightarrow> dec_sextets (enc_sextets bs) = bs"
  by (induction bs rule: enc_sextets.induct) auto

lemma length_enc_sextets:
  "length (enc_sextets bs) =
     4 * (length bs div 3) + (if length bs mod 3 = 0 then 0 else length bs mod 3 + 1)"
  by (induction bs rule: enc_sextets.induct) auto

lemma strip_padding_btoa_codes:
  assumes "\<forall>b\<in>set bs. b < 256"
  shows "strip_padding (btoa_codes bs) = map b64char (enc_sextets bs)"
proof -
  let ?sx = "enc_sextets bs"
  let ?cs = "map b64char ?sx"
  have lt: "\<forall>v\<in>set ?sx. v < 64" using assms by (rule enc_sextets_lt)
  have last_ok: "?sx \<noteq> [] \<Longrightarrow> last ?cs \<noteq> 61"
    using lt b64char_plain by (simp add: last_map)
  have len: "length ?cs =
      4 * (length bs div 3) + (if length bs mod 3 = 0 then 0 else length bs mod 3 + 1)"
    by (simp add: length_enc_sextets)
  consider "length bs mod 3 = 0" | "length bs mod 3 = 1" | "length bs mod 3 = 2"
    by linarith
  then show ?thesis
  proof cases
    case 1
    then have "btoa_codes bs = ?cs" by (simp add: btoa_codes_def)
    then show ?thesis using last_ok by (auto simp: strip_padding_def)
  next
    case 2
    then have e: "btoa_codes bs = ?cs @ [61, 61]"
      by (simp add: btoa_codes_def numeral_2_eq_2)
    have "length (?cs @ [61, 61]) mod 4 = 0" using len 2 by simp
    then show ?thesis unfolding e strip_padding_def
      by (simp add: butlast_append)
  next
    case 3
    then have e: "btoa_codes bs = ?cs @ [61]"
      by (simp add: btoa_codes_def)
    have l: "length (?cs @ [61]) mod 4 = 0" using len 3 by simp
    have ne: "?sx \<noteq> []" using len 3 by auto
    show ?thesis unfolding e strip_padding_def using l ne last_ok
      by (simp add: butlast_append)
  qed
qed

lemma btoa_codes_plain:
  assumes "\<forall>b\<in>set bs. b < 256"
  shows "\<forall>c\<in>set (btoa_codes bs). \<not> ascii_whitespace c"
  using enc_sextets_lt[OF assms] b64char_plain
  by (auto simp: btoa_codes_def ascii_whitespace_def)

lemma btoa_codes_small:
  assumes "\<forall>b\<in>set bs. b < 256"
  shows "\<forall>c\<in>set (btoa_codes bs). c < 128"
  using enc_sextets_lt[OF assms]
  by (auto simp: btoa_codes_def b64char_def)

lemma atob_btoa_codes:
  assumes "\<forall>b\<in>set bs. b < 256"
  shows "atob_codes (btoa_codes bs) = Some bs"
proof -
  let ?sx = "enc_sextets bs"
  have lt: "\<forall>v\<in>set ?sx. v < 64" using assms by (rule enc_sextets_lt)
  have f: "filter (\<lambda>c. \<not> ascii_whitespace c) (btoa_codes bs) = btoa_codes bs"
    using btoa_codes_plain[OF assms] by (simp add: filter_id_conv)
  have s: "strip_padding (btoa_codes bs) = map b64char ?sx"
    using assms by (rule strip_padding_btoa_codes)
  have l: "length (map b64char ?sx) mod 4 \<noteq> 1"
    by (simp add: length_enc_sextets)
  have v: "\<not> list_ex (\<lambda>c. b64val c = None) (map b64char ?sx)"
    using lt by (auto simp: list_ex_iff b64val_b64char)
  have m: "map (\<lambda>c. case b64val c of Some v \<Rightarrow> v | None \<Rightarrow> 0) (map b64char ?sx) = ?sx"
    using lt by (simp add: map_idI b64val_b64char)
  show ?thesis
    unfolding atob_codes_def f s Let_def using l v m dec_enc_sextets[OF assms] by simp
qed

lemma unat_of_nat_16: "n < 128 \<Longrightarrow> unat (of_nat n :: 16 word) = n"
  by (simp add: unat_of_nat)

lemma atob_btoa:
  assumes "\<not> list_ex (\<lambda>c. c > 255) (s::jsstring)"
  shows "\<exists>e. btoa s = Inr e \<and> atob e = Inr s \<and> (s \<noteq> [] \<longrightarrow> e \<noteq> [])"
proof -
  have by256: "\<forall>b\<in>set (map unat s). b < 256"
  proof
    fix b assume "b \<in> set (map unat s)"
    then obtain c where c: "c \<in> set s" "b = unat c" by auto
    then have "c \<le> 255" using assms by (auto simp: list_ex_iff)
    then have "unat c \<le> unat (255 :: 16 word)" by (simp add: word_le_nat_alt)
    then show "b < 256" using c by simp
  qed
  let ?codes = "btoa_codes (map unat s)"
  have e: "btoa s = Inr (map of_nat ?codes)" using assms by (simp add: btoa_def)
  have rt: "map unat (map of_nat ?codes :: jsstring) = ?codes"
    using btoa_codes_small[OF by256] by (simp add: map_idI unat_of_nat_16)
  have "atob (map of_nat ?codes) = Inr (map of_nat (map unat s))"
    unfolding atob_def rt atob_btoa_codes[OF by256] by simp
  then have a: "atob (map of_nat ?codes) = Inr s" by (simp add: map_idI)
  have ne: "s \<noteq> [] \<longrightarrow> map of_nat ?codes \<noteq> ([] :: jsstring)"
    by (cases "map unat s" rule: enc_sextets.cases) (auto simp: btoa_codes_def)
  show ?thesis using e a ne by blast
qed

lemma length_xor_key: "length (xor_key t) = length t"
  by (simp add: xor_key_def)

lemma xor_key_involution: "xor_key (xor_key t) = t"
  by (rule nth_equalityI) (simp_all add: xor_key_def xor.assoc)

lemma encrypt_decrypt:
  assumes "\<forall>i<length token. (token ! i) XOR (SECRET_KEY ! (i mod length SECRET_KEY)) < 256"
  shows "\<exists>e. encrypt token = Inr e \<and> decrypt e = token"
proof (cases "token = []")
  case True
  then show ?thesis by (simp add: encrypt_def decrypt_def)
next
  case False
  have "\<not> list_ex (\<lambda>c. c > 255) (xor_key token)"
  proof -
    have "\<forall>c\<in>set (xor_key token). c < 256"
      using assms by (auto simp: xor_key_def)
    then have "\<forall>c\<in>set (xor_key token). \<not> c > 255"
      by (auto simp: word_less_nat_alt)
    then show ?thesis by (simp add: list_ex_iff)
  qed
  from atob_btoa[OF this] obtain e where
    e: "btoa (xor_key token) = Inr e" "atob e = Inr (xor_key token)"
       "xor_key token \<noteq> [] \<longrightarrow> e \<noteq> []"
    by blast
  have "xor_key token \<noteq> []" using False length_xor_key[of token] by auto
  then have "e \<noteq> []" using e by simp
  then have "decrypt e = token" using e by (simp add: decrypt_def xor_key_involution)
  moreover have "encrypt token = Inr e" using False e by (simp add: encrypt_def)
  ultimately show ?thesis by blast
qed

lemma ascii_xor_small:
  assumes "\<forall>c\<in>set token. c < (128 :: 16 word)"
  shows "\<forall>i<length token. (token ! i) XOR (SECRET_KEY ! (i mod length SECRET_KEY)) < 256"
proof (intro allI impI)
  fix i assume i: "i < length token"
  have "SECRET_KEY ! (i mod length SECRET_KEY) \<in> set SECRET_KEY"
    by (rule nth_mem) (simp add: SECRET_KEY_def)
  then have k: "SECRET_KEY ! (i mod length SECRET_KEY) < 128" using key_ascii by blast
  have "token ! i < 128" using assms i by simp
  from xor_lt_128[OF this k]
  show "(token ! i) XOR (SECRET_KEY ! (i mod length SECRET_KEY)) < 256"
    by (rule less_trans) simp
qed

text \<open>
  C10. If every code unit of the token, combined by exclusive or with the key
  character at its position, is below 256, then \<open>encrypt\<close> returns (without raising) a
  string that \<open>decrypt\<close> maps back to the token; every token of ASCII characters is
  such a token; and both functions map the empty string to the empty string.
\<close>

theorem decrypt_encrypt_roundtrip:
  "((\<forall>i<length token. (token ! i) XOR (SECRET_KEY ! (i mod length SECRET_KEY)) < 256)
      \<longrightarrow> (\<exists>e. encrypt token = Inr e \<and> decrypt e = token))
   \<and> ((\<forall>c\<in>set token. c < 128)
      \<longrightarrow> (\<exists>e. encrypt token = Inr e \<and> decrypt e = token))
   \<and> encrypt [] = Inr [] \<and> decrypt [] = []"
  using encrypt_decrypt[of token] encrypt_decrypt[OF ascii_xor_small, of token]
  by (simp add: encrypt_def decrypt_def)

theorem decrypt_encrypt_roundtrip_witness:
  "list_all (\<lambda>c. c < 128) (map of_char ''figd_abc'' :: jsstring)
   \<and> encrypt (map of_char ''figd_abc'') = Inr (map of_char ''AAAACT5MDQE='')
   \<and> decrypt (map of_char ''AAAACT5MDQE='') = map of_char ''figd_abc''"
proof -
  have h: "\<forall>c\<in>set (map of_char ''figd_abc'' :: jsstring). c < 128" by simp
  have enc: "encrypt (map of_char ''figd_abc'') = Inr (map of_char ''AAAACT5MDQE='')"
    by (simp add: encrypt_def xor_key_def SECRET_KEY_def btoa_def btoa_codes_def
        b64char_def upt_conv_Cons)
  from decrypt_encrypt_roundtrip[of "map of_char ''figd_abc''"] h
  obtain e where "encrypt (map of_char ''figd_abc'') = Inr e"
    and "decrypt e = map of_char ''figd_abc''"
    by blast
  with enc show ?thesis by simp
qed

subsection \<open>Rounding to double precision\<close>

lemma expo_bounds:
  assumes "0 < v"
  shows "2 powi (expo v) \<le> v \<and> v < 2 powi (expo v + 1)"
proof (cases "1 \<le> v")
  case True
  let ?n = "\<lfloor>v\<rfloor>"
  have n: "0 < ?n" using True by simp
  from bitlen_bounds[OF n] have b: "2 ^ nat (bitlen ?n - 1) \<le> ?n" "?n < 2 ^ nat (bitlen ?n)" by auto
  have b1: "1 \<le> bitlen ?n" using n by (auto simp: bitlen_alt_def)
  have e: "expo v = bitlen ?n - 1" using True by (simp add: expo_def)
  have "2 powi (expo v) = (2::real) ^ nat (bitlen ?n - 1)"
    using b1 by (simp add: e power_int_def)
  also have "\<dots> = of_int (2 ^ nat (bitlen ?n - 1))" by simp
  also have "\<dots> \<le> of_int ?n" using b(1) by (simp only: of_int_le_iff)
  also have "\<dots> \<le> v" by simp
  finally have 1: "2 powi (expo v) \<le> v" .
  have "?n + 1 \<le> 2 ^ nat (bitlen ?n)" using b(2) by simp
  then have "(of_int (?n + 1) :: real) \<le> of_int (2 ^ nat (bitlen ?n))" by (simp only: of_int_le_iff)
  then have "(of_int ?n :: real) + 1 \<le> 2 ^ nat (bitlen ?n)" by simp
  moreover have "v < of_int ?n + 1" by linarith
  ultimately have "v < (2::real) ^ nat (bitlen ?n)" by linarith
  moreover have "2 powi (expo v + 1) = (2::real) ^ nat (bitlen ?n)"
    using b1 by (simp add: e power_int_def)
  ultimately show ?thesis using 1 by simp
next
  case False
  let ?t = "1 / v"
  let ?n = "\<lceil>?t\<rceil>"
  have t: "1 < ?t" using False assms by simp
  have n: "0 < ?n - 1" using t by linarith
  from bitlen_bounds[OF n] have b: "2 ^ nat (bitlen (?n - 1) - 1) \<le> ?n - 1" "?n - 1 < 2 ^ nat (bitlen (?n - 1))" by auto
  let ?k = "bitlen (?n - 1)"
  have k1: "1 \<le> ?k" using n by (auto simp: bitlen_alt_def)
  have e: "expo v = - ?k" using False by (simp add: expo_def)
  have "?n \<le> 2 ^ nat ?k" using b(2) by simp
  then have "(of_int ?n :: real) \<le> of_int (2 ^ nat ?k)" by (simp only: of_int_le_iff)
  then have "(of_int ?n :: real) \<le> 2 ^ nat ?k" by (simp only: of_int_power of_int_numeral)
  moreover have "?t \<le> of_int ?n" by (rule le_of_int_ceiling)
  ultimately have up: "?t \<le> 2 ^ nat ?k" by (rule order.trans[rotated])
  have "(of_int (2 ^ nat (?k - 1)) :: real) \<le> of_int (?n - 1)" using b(1) by (simp only: of_int_le_iff)
  then have "(2::real) ^ nat (?k - 1) \<le> of_int (?n - 1)" by (simp only: of_int_power of_int_numeral)
  moreover have "of_int (?n - 1) < ?t" by linarith
  ultimately have lo: "2 ^ nat (?k - 1) < ?t" by (rule order.strict_trans1)
  have p1: "2 powi (expo v) = 1 / (2::real) ^ nat ?k"
    using k1 by (simp add: e power_int_def field_simps)
  have p2: "2 powi (expo v + 1) = 1 / (2::real) ^ nat (?k - 1)"
    using k1 by (simp add: e power_int_def field_simps)
  have "1 / (2::real) ^ nat ?k \<le> v"
    using up assms by (simp add: field_simps)
  moreover have "v < 1 / (2::real) ^ nat (?k - 1)"
    using lo assms by (simp add: field_simps)
  ultimately show ?thesis using p1 p2 by simp
qed

lemma pow2_less_imp: "(2::real) powi k < 2 powi m \<Longrightarrow> k < m"
  using power_int_increasing[of m k "2::real"] by (cases "k < m") auto

lemma expo_unique:
  assumes "0 < v" "2 powi k \<le> v" "v < 2 powi (k + 1)"
  shows "expo v = k"
proof -
  from expo_bounds[OF assms(1)] have b: "2 powi (expo v) \<le> v" "v < 2 powi (expo v + 1)" by auto
  have "(2::real) powi k < 2 powi (expo v + 1)" using assms(2) b(2) by linarith
  then have 1: "k < expo v + 1" by (rule pow2_less_imp)
  have "(2::real) powi (expo v) < 2 powi (k + 1)" using assms(3) b(1) by linarith
  then have 2: "expo v < k + 1" by (rule pow2_less_imp)
  from 1 2 show ?thesis by simp
qed

lemma expo_mono:
  assumes "0 < a" "a \<le> b"
  shows "expo a \<le> expo b"
proof -
  have b0: "0 < b" using assms by simp
  from expo_bounds[OF assms(1)] expo_bounds[OF b0]
  have "(2::real) powi (expo a) < 2 powi (expo b + 1)" using assms(2) by linarith
  then have "expo a < expo b + 1" by (rule pow2_less_imp)
  then show ?thesis by simp
qed

lemma rne_of_int [simp]: "rne (of_int n) = n"
  by (simp add: rne_def)

lemma rne_bounds: "\<lfloor>t\<rfloor> \<le> rne t \<and> rne t \<le> \<lfloor>t\<rfloor> + 1"
  by (simp add: rne_def Let_def)

lemma rne_mono:
  assumes "s \<le> t"
  shows "rne s \<le> rne t"
proof (cases "\<lfloor>s\<rfloor> = \<lfloor>t\<rfloor>")
  case True
  then have "s - of_int \<lfloor>s\<rfloor> \<le> t - of_int \<lfloor>t\<rfloor>" using assms by simp
  then show ?thesis using True by (auto simp: rne_def Let_def)
next
  case False
  have "\<lfloor>s\<rfloor> \<le> \<lfloor>t\<rfloor>" using assms by (rule floor_mono)
  with False have "\<lfloor>s\<rfloor> + 1 \<le> \<lfloor>t\<rfloor>" by simp
  with rne_bounds[of s] rne_bounds[of t] show ?thesis by linarith
qed

lemma rne_close: "\<bar>of_int (rne t) - t\<bar> \<le> 1 / 2"
proof -
  have "of_int \<lfloor>t\<rfloor> \<le> t" "t < of_int \<lfloor>t\<rfloor> + 1" by linarith+
  then show ?thesis by (auto simp: rne_def Let_def abs_le_iff)
qed

lemma scaled_bounds:
  assumes "0 < v"
  shows "2 ^ 52 \<le> v / 2 powi (expo v - 52) \<and> v / 2 powi (expo v - 52) < 2 ^ 53"
proof -
  let ?u = "(2::real) powi (expo v - 52)"
  have u: "0 < ?u" by simp
  have e1: "2 powi (expo v) = 2 ^ 52 * ?u"
    by (simp add: power_int_diff)
  have e2: "2 powi (expo v + 1) = 2 ^ 53 * ?u"
    by (simp add: power_int_diff power_int_add)
  from expo_bounds[OF assms] have "2 ^ 52 * ?u \<le> v" "v < 2 ^ 53 * ?u"
    unfolding e1 e2 by auto
  then show ?thesis using u by (simp add: pos_le_divide_eq pos_divide_less_eq)
qed

lemma fl_pos_eq:
  assumes "0 < v"
  shows "fl v = of_int (rne (v / 2 powi (expo v - 52))) * 2 powi (expo v - 52)"
  using assms by (simp add: fl_def Let_def)

lemma fl_zero [simp]: "fl 0 = 0"
  by (simp add: fl_def)

lemma fl_range:
  assumes "0 < v"
  shows "2 powi (expo v) \<le> fl v \<and> fl v \<le> 2 powi (expo v + 1)"
proof -
  let ?u = "(2::real) powi (expo v - 52)"
  let ?t = "v / ?u"
  have u: "0 < ?u" by simp
  from scaled_bounds[OF assms] have t: "2 ^ 52 \<le> ?t" "?t < 2 ^ 53" by auto
  have "rne (of_int (2 ^ 52)) \<le> rne ?t" by (rule rne_mono) (use t in simp)
  then have lo: "2 ^ 52 \<le> rne ?t" by (simp only: rne_of_int)
  have "rne ?t \<le> rne (of_int (2 ^ 53))" by (rule rne_mono) (use t in simp)
  then have hi: "rne ?t \<le> 2 ^ 53" by (simp only: rne_of_int)
  have lo': "(2::real) ^ 52 \<le> of_int (rne ?t)" using lo by (metis of_int_le_iff of_int_numeral of_int_power)
  have hi': "of_int (rne ?t) \<le> (2::real) ^ 53" using hi by (metis of_int_le_iff of_int_numeral of_int_power)
  have e1: "2 powi (expo v) = 2 ^ 52 * ?u"
    by (simp add: power_int_diff)
  have e2: "2 powi (expo v + 1) = 2 ^ 53 * ?u"
    by (simp add: power_int_diff power_int_add)
  have "2 ^ 52 * ?u \<le> of_int (rne ?t) * ?u" using lo' u by (simp only: mult_le_cancel_right_pos)
  moreover have "of_int (rne ?t) * ?u \<le> 2 ^ 53 * ?u" using hi' u by (simp only: mult_le_cancel_right_pos)
  ultimately show ?thesis unfolding e1 e2 fl_pos_eq[OF assms] by simp
qed

lemma fl_pos: "0 < v \<Longrightarrow> 0 < fl v"
  using fl_range[of v] zero_less_power_int[of "2::real" "expo v"] by linarith

lemma fl_nonneg: "0 \<le> v \<Longrightarrow> 0 \<le> fl v"
  using fl_pos[of v] by (cases "v = 0") auto

lemma fl_eq_0_iff: "0 \<le> v \<Longrightarrow> fl v = 0 \<longleftrightarrow> v = 0"
  using fl_pos[of v] by (cases "v = 0") auto

lemma fl_mono_pos:
  assumes "0 < a" "a \<le> b"
  shows "fl a \<le> fl b"
proof -
  have b0: "0 < b" using assms by simp
  have le: "expo a \<le> expo b" using assms by (rule expo_mono)
  show ?thesis
  proof (cases "expo a = expo b")
    case True
    let ?u = "(2::real) powi (expo b - 52)"
    have u: "0 < ?u" by simp
    have "a / ?u \<le> b / ?u" using assms u by (simp add: divide_right_mono)
    then have "rne (a / ?u) \<le> rne (b / ?u)" by (rule rne_mono)
    then have "(of_int (rne (a / ?u)) :: real) \<le> of_int (rne (b / ?u))" by simp
    then have "of_int (rne (a / ?u)) * ?u \<le> of_int (rne (b / ?u)) * ?u"
      using u by (simp only: mult_le_cancel_right_pos)
    then show ?thesis unfolding fl_pos_eq[OF assms(1)] fl_pos_eq[OF b0] True .
  next
    case False
    with le have "expo a + 1 \<le> expo b" by simp
    then have "(2::real) powi (expo a + 1) \<le> 2 powi (expo b)"
      by (intro power_int_increasing) auto
    with fl_range[OF assms(1)] fl_range[OF b0] show ?thesis by linarith
  qed
qed

lemma fl_mono: "0 \<le> a \<Longrightarrow> a \<le> b \<Longrightarrow> fl a \<le> fl b"
  using fl_mono_pos[of a b] fl_nonneg[of b] by (cases "a = 0") auto

lemma fl_eval:
  assumes "0 < v" "u = 2 powi k" "2 ^ 52 \<le> v / u" "v / u < 2 ^ 53"
  shows "fl v = of_int (rne (v / u)) * u"
proof -
  have u: "0 < u" using assms(2) by simp
  have "2 ^ 52 * u \<le> v" "v < 2 ^ 53 * u"
    using assms(3,4) u by (simp_all add: pos_le_divide_eq pos_divide_less_eq)
  moreover have "2 powi (k + 52) = 2 ^ 52 * u" "2 powi (k + 52 + 1) = 2 ^ 53 * u"
    unfolding assms(2) by (simp_all add: power_int_add)
  ultimately have "expo v = k + 52"
    by (intro expo_unique[OF assms(1)]) simp_all
  then show ?thesis using assms(1,2) by (simp add: fl_pos_eq)
qed

lemma rne_eqI:
  assumes "\<bar>t - of_int m\<bar> < 1 / 2"
  shows "rne t = m"
proof (cases "of_int m \<le> t")
  case True
  then have "\<lfloor>t\<rfloor> = m" using assms by (intro floor_unique) (auto simp: abs_less_iff)
  then show ?thesis using assms True by (auto simp: rne_def Let_def abs_less_iff)
next
  case False
  then have "\<lfloor>t\<rfloor> = m - 1" using assms by (intro floor_unique) (auto simp: abs_less_iff)
  then show ?thesis using assms False by (auto simp: rne_def Let_def abs_less_iff)
qed

lemma fl_eqI:
  assumes "0 < v" "u = 2 powi k" "2 ^ 52 \<le> v / u" "v / u < 2 ^ 53"
    "\<bar>v / u - of_int m\<bar> < 1 / 2"
  shows "fl v = of_int m * u"
  using fl_eval[OF assms(1-4)] rne_eqI[OF assms(5)] by simp

text \<open>Some roundings: of numbers that are doubles, and of the near tie of \<open>ex_near_tie\<close>.\<close>

lemma fl_100: "fl 100 = 100"
  using fl_eqI[of 100 "1 / 2 ^ 46" "-46" "100 * 2 ^ 46"]
  by (simp add: power_int_minus field_simps)

lemma fl_50: "fl 50 = 50"
  using fl_eqI[of 50 "1 / 2 ^ 47" "-47" "50 * 2 ^ 47"]
  by (simp add: power_int_minus field_simps)

lemma fl_10000: "fl 10000 = 10000"
  using fl_eqI[of 10000 "1 / 2 ^ 39" "-39" "10000 * 2 ^ 39"]
  by (simp add: power_int_minus field_simps)

lemma fl_20000: "fl 20000 = 20000"
  using fl_eqI[of 20000 "1 / 2 ^ 38" "-38" "20000 * 2 ^ 38"]
  by (simp add: power_int_minus field_simps)





subsection \<open>Resolution by coordinate\<close>

lemma fold_concat_map: "fold f (concat (map g xs)) s = fold (\<lambda>x. fold f (g x)) xs s"
  by (induction xs arbitrary: s) simp_all

lemma traverseNodes_preorder:
  "traverseNodes nd cb path s = fold (\<lambda>c. cb (fst c) (snd c)) (preorder nd path) s"
proof (induction nd arbitrary: path s)
  case (Node i t n b cs)
  have "fold (\<lambda>child. traverseNodes child cb (path @ [Node i t n b cs])) cs s'
      = fold (\<lambda>child. fold (\<lambda>c. cb (fst c) (snd c)) (preorder child (path @ [Node i t n b cs]))) cs s'" for s'
    by (rule fold_cong) (simp_all add: Node.IH fun_eq_iff)
  then show ?case
    by (simp add: fold_concat_map Let_def)
qed

lemma fold_skip:
  assumes "\<And>c s. \<not> P c \<Longrightarrow> f c s = s"
  shows "fold f xs s = fold f (filter P xs) s"
  by (induction xs arbitrary: s) (simp_all add: assms)

lemma visit_non_candidate: "\<not> candidate x y c \<Longrightarrow> visit x y (fst c) (snd c) bst = bst"
  by (auto simp: candidate_def visit_def split: option.splits)

lemma candidateD:
  assumes "candidate x y c"
  obtains bx by' w h where
    "isFrameNode (fst c)"
    "absoluteBoundingBox (fst c) = Some \<lparr>box_x = Some bx, box_y = Some by', box_width = Some w, box_height = Some h\<rparr>"
    "bx \<le> x" "x \<le> bx + w" "by' \<le> y" "y \<le> by' + h"
proof -
  from assms obtain b where b: "absoluteBoundingBox (fst c) = Some b" "isFrameNode (fst c)" "isPointInBounds x y b"
    by (auto simp: candidate_def split: option.splits)
  obtain bxo byo wo ho where bb: "b = \<lparr>box_x = bxo, box_y = byo, box_width = wo, box_height = ho\<rparr>"
    by (cases b) auto
  from b(3) bb obtain bx by' w h where "bxo = Some bx" "byo = Some by'" "wo = Some w" "ho = Some h"
     "bx \<le> x" "x \<le> bx + w" "by' \<le> y" "y \<le> by' + h"
    by (auto simp: isPointInBounds_def js_ge_def js_add_def split: option.splits)
  with b bb that show thesis by blast
qed

lemma candidate_area_nonneg: "candidate x y c \<Longrightarrow> 0 \<le> box_area (fst c)"
  by (erule candidateD) (simp add: box_area_def)


lemma visit_candidate:
  assumes "candidate x y c"
  shows "visit x y (fst c) (snd c) bst =
    (if js_gt (score_of (box_area (fst c))) (bestScore bst)
     then \<lparr>bestMatchNode = Some (fst c), bestMatchPath = snd c, bestScore = score_of (box_area (fst c))\<rparr>
     else bst)"
  using assms
  by (elim candidateD) (simp add: visit_def isPointInBounds_def js_ge_def js_add_def js_mul_def
      js_div_pos_def box_area_def score_of_def)

lemma score_of_zero: "score_of 0 = PosInf"
  by (simp add: score_of_def)

lemma score_of_pos:
  assumes "0 < a"
  shows "score_of a = Num (fl (1000000 / fl a)) \<and> 0 < fl (1000000 / fl a)"
proof -
  have "0 < fl a" using assms by (rule fl_pos)
  then have "0 < 1000000 / fl a" by simp
  then have "0 < fl (1000000 / fl a)" by (rule fl_pos)
  with \<open>0 < fl a\<close> show ?thesis by (simp add: score_of_def)
qed

lemma score_of_not_NaN: "score_of a \<noteq> NaN"
  by (simp add: score_of_def)

lemma score_of_PosInf_iff: "0 \<le> a \<Longrightarrow> score_of a = PosInf \<longleftrightarrow> a = 0"
  by (simp add: score_of_def fl_eq_0_iff)

lemma score_gt_init: "0 \<le> a \<Longrightarrow> js_gt (score_of a) (Num (-1))"
proof (cases "a = 0")
  case True
  then show ?thesis by (simp add: score_of_zero)
next
  case False
  assume "0 \<le> a"
  with False have "0 < a" by simp
  from score_of_pos[OF this] show ?thesis by simp
qed


lemma js_gt_trans: "js_gt a b \<Longrightarrow> js_gt b c \<Longrightarrow> js_gt a c"
  by (cases a; cases b; cases c) auto

lemma js_gt_not_gt: "js_gt a c \<Longrightarrow> \<not> js_gt d c \<Longrightarrow> d \<noteq> NaN \<Longrightarrow> js_gt a d"
  by (cases a; cases c; cases d) auto



lemma select_fold:
  assumes "\<forall>c\<in>set cs. candidate x y c"
  shows "(cs = [] \<and> fold (\<lambda>c. visit x y (fst c) (snd c)) cs best_init = best_init) \<or>
     (\<exists>pre c post. cs = pre @ c # post
        \<and> (\<forall>d\<in>set pre. js_gt (score_of (box_area (fst c))) (score_of (box_area (fst d))))
        \<and> (\<forall>d\<in>set post. \<not> js_gt (score_of (box_area (fst d))) (score_of (box_area (fst c))))
        \<and> fold (\<lambda>c. visit x y (fst c) (snd c)) cs best_init =
            \<lparr>bestMatchNode = Some (fst c), bestMatchPath = snd c,
             bestScore = score_of (box_area (fst c))\<rparr>)"
  using assms
proof (induction cs rule: rev_induct)
  case Nil
  then show ?case by simp
next
  case (snoc a cs)
  let ?f = "\<lambda>c. visit x y (fst c) (snd c)"
  let ?sc = "\<lambda>c. score_of (box_area (fst c))"
  have ca: "candidate x y a" using snoc.prems by simp
  have a0: "0 \<le> box_area (fst a)" using ca by (rule candidate_area_nonneg)
  have step: "fold ?f (cs @ [a]) best_init = visit x y (fst a) (snd a) (fold ?f cs best_init)"
    by simp
  from snoc.IH snoc.prems consider
      (empty) "cs = []" "fold ?f cs best_init = best_init"
    | (some) pre c post where "cs = pre @ c # post"
        "\<forall>d\<in>set pre. js_gt (?sc c) (?sc d)"
        "\<forall>d\<in>set post. \<not> js_gt (?sc d) (?sc c)"
        "fold ?f cs best_init = \<lparr>bestMatchNode = Some (fst c), bestMatchPath = snd c,
             bestScore = ?sc c\<rparr>"
    by auto
  then show ?case
  proof cases
    case empty
    have "fold ?f (cs @ [a]) best_init = \<lparr>bestMatchNode = Some (fst a), bestMatchPath = snd a,
             bestScore = ?sc a\<rparr>"
      unfolding step empty(2) using score_gt_init[OF a0]
      by (simp add: visit_candidate[OF ca] best_init_def)
    moreover have "cs @ [a] = [] @ a # []" using empty by simp
    ultimately show ?thesis
      by (intro disjI2 exI[of _ "[]"] exI[of _ a]) simp
  next
    case some
    show ?thesis
    proof (cases "js_gt (?sc a) (?sc c)")
      case True
      have r: "fold ?f (cs @ [a]) best_init = \<lparr>bestMatchNode = Some (fst a), bestMatchPath = snd a,
             bestScore = ?sc a\<rparr>"
        unfolding step some(4) using True by (simp add: visit_candidate[OF ca])
      have "js_gt (?sc a) (?sc d)" if "d \<in> set cs" for d
      proof -
        from that some(1) consider "d \<in> set pre" | "d = c" | "d \<in> set post" by auto
        then show ?thesis
        proof cases
          case 1
          with some(2) have "js_gt (?sc c) (?sc d)" by simp
          with True show ?thesis by (rule js_gt_trans)
        next
          case 2
          with True show ?thesis by simp
        next
          case 3
          with some(3) have "\<not> js_gt (?sc d) (?sc c)" by simp
          with True show ?thesis by (rule js_gt_not_gt) (rule score_of_not_NaN)
        qed
      qed
      then have "\<forall>d\<in>set cs. js_gt (?sc a) (?sc d)" by simp
      then show ?thesis using r
        by (intro disjI2 exI[of _ cs] exI[of _ a] exI[of _ "[]"]) simp
    next
      case False
      have r: "fold ?f (cs @ [a]) best_init = \<lparr>bestMatchNode = Some (fst c), bestMatchPath = snd c,
             bestScore = ?sc c\<rparr>"
        unfolding step some(4) using False by (simp add: visit_candidate[OF ca])
      have "\<forall>d\<in>set (post @ [a]). \<not> js_gt (?sc d) (?sc c)"
        using False some(3) by auto
      moreover have "cs @ [a] = pre @ c # (post @ [a])" using some(1) by simp
      ultimately show ?thesis using r some(2)
        by (intro disjI2 exI[of _ pre] exI[of _ c] exI[of _ "post @ [a]"]) simp
    qed
  qed
qed

lemma scan_frames_candidates:
  assumes "document fd = Some doc"
  shows "scan_frames x y fd =
     Inr (fold (\<lambda>c. visit x y (fst c) (snd c)) (filter (candidate x y) (preorder doc [])) best_init)"
proof -
  have "traverseNodes doc (visit x y) [] best_init
      = fold (\<lambda>c. visit x y (fst c) (snd c)) (preorder doc []) best_init"
    by (rule traverseNodes_preorder)
  also have "\<dots> = fold (\<lambda>c. visit x y (fst c) (snd c)) (filter (candidate x y) (preorder doc [])) best_init"
    by (rule fold_skip) (rule visit_non_candidate)
  finally show ?thesis using assms by (simp add: scan_frames_def)
qed




lemmas ex_defs = ex_overlap_def ex_outer_def ex_inner_def ex_degenerate_def ex_line_def rect_def
  ex_file_def ex_page_def ex_header_def ex_title_def
lemmas geo_defs = candidate_def isFrameNode_def isPointInBounds_def js_ge_def js_add_def js_mul_def
  js_div_pos_def box_area_def
lemmas fl_vals = fl_100 fl_50 fl_10000 fl_20000





lemma select_fold_mem:
  assumes "\<forall>c\<in>set cs. candidate x y c"
    and "bestMatchNode (fold (\<lambda>c. visit x y (fst c) (snd c)) cs best_init) = Some nd"
  shows "\<exists>p. (nd, p) \<in> set cs
     \<and> (\<forall>d\<in>set cs. \<not> js_gt (score_of (box_area (fst d))) (score_of (box_area nd)))"
proof -
  let ?sc = "\<lambda>c. score_of (box_area (fst c))"
  from select_fold[OF assms(1)] assms(2) obtain pre c post where
    c: "cs = pre @ c # post"
      "\<forall>d\<in>set pre. js_gt (?sc c) (?sc d)"
      "\<forall>d\<in>set post. \<not> js_gt (?sc d) (?sc c)"
      "fst c = nd"
    by (auto simp: best_init_def)
  have "(nd, snd c) \<in> set cs" using c(1,4) by auto
  moreover have "\<not> js_gt (?sc d) (score_of (box_area nd))" if "d \<in> set cs" for d
  proof -
    from that c(1) consider "d \<in> set pre" | "d = c" | "d \<in> set post" by auto
    then show ?thesis
    proof cases
      case 1
      with c(2) have g: "js_gt (?sc c) (?sc d)" by simp
      show ?thesis
      proof
        assume "js_gt (?sc d) (score_of (box_area nd))"
        with c(4) have "js_gt (?sc d) (?sc c)" by simp
        from js_gt_trans[OF g this] show False by (cases "?sc c") auto
      qed
    next
      case 2
      then show ?thesis using c(4) by (cases "?sc c") auto
    next
      case 3
      with c(3,4) show ?thesis by auto
    qed
  qed
  ultimately show ?thesis by blast
qed

text \<open>
  C3 (amended). The node selected as best match is of container kind and has a
  bounding box with \<open>x\<close>, \<open>y\<close>, \<open>width\<close> and \<open>height\<close> all present that contains the point:
  a node without a box, or whose box lacks a width or a height, is never selected. A
  box of zero width or height is not excluded: if some candidate has area zero (the
  point lies on its degenerate box), the selected node has area zero.
\<close>

theorem selected_node_has_box_containing_point:
  assumes "selected x y fd = Some nd"
  shows "isFrameNode nd
    \<and> (\<exists>bx by' w h.
          absoluteBoundingBox nd =
            Some \<lparr>box_x = Some bx, box_y = Some by', box_width = Some w, box_height = Some h\<rparr>
          \<and> bx \<le> x \<and> x \<le> bx + w \<and> by' \<le> y \<and> y \<le> by' + h)
    \<and> (\<forall>doc c. document fd = Some doc \<and> c \<in> set (preorder doc []) \<and> candidate x y c
           \<and> box_area (fst c) = 0 \<longrightarrow> box_area nd = 0)"
proof -
  from assms obtain doc where doc: "document fd = Some doc"
    by (auto simp: selected_def scan_frames_def split: option.splits)
  let ?cs = "filter (candidate x y) (preorder doc [])"
  have "bestMatchNode (fold (\<lambda>c. visit x y (fst c) (snd c)) ?cs best_init) = Some nd"
    using assms scan_frames_candidates[OF doc, of x y] by (simp add: selected_def)
  from select_fold_mem[OF _ this] obtain p where
    p: "(nd, p) \<in> set ?cs"
       "\<forall>d\<in>set ?cs. \<not> js_gt (score_of (box_area (fst d))) (score_of (box_area nd))"
    by auto
  have cand: "candidate x y (nd, p)" using p(1) by simp
  have n0: "0 \<le> box_area nd" using candidate_area_nonneg[OF cand] by simp
  have 1: "isFrameNode nd \<and> (\<exists>bx by' w h.
          absoluteBoundingBox nd =
            Some \<lparr>box_x = Some bx, box_y = Some by', box_width = Some w, box_height = Some h\<rparr>
          \<and> bx \<le> x \<and> x \<le> bx + w \<and> by' \<le> y \<and> y \<le> by' + h)"
    using cand by (elim candidateD) auto
  have 2: "box_area nd = 0" if "document fd = Some doc'" "c \<in> set (preorder doc' [])"
      "candidate x y c" "box_area (fst c) = 0" for doc' c
  proof -
    have "doc' = doc" using that(1) doc by simp
    then have "c \<in> set ?cs" using that by simp
    with p(2) have "\<not> js_gt (score_of (box_area (fst c))) (score_of (box_area nd))" by blast
    then have "\<not> js_gt PosInf (score_of (box_area nd))"
      using that(4) by (simp add: score_of_zero)
    then have "score_of (box_area nd) = PosInf"
      using score_of_not_NaN[of "box_area nd"] by (cases "score_of (box_area nd)") auto
    then show ?thesis using n0 by (simp add: score_of_PosInf_iff)
  qed
  show ?thesis using 1 2 by blast
qed

lemma selected_ex_degenerate: "selected 5 5 ex_degenerate = Some ex_line"
  by (simp add: selected_def scan_frames_def visit_def best_init_def ex_defs geo_defs fl_vals)

theorem selected_node_has_box_containing_point_witness:
  "selected 5 5 ex_degenerate = Some ex_line
   \<and> isFrameNode ex_line
   \<and> absoluteBoundingBox ex_line = Some (rect 5 0 0 10)
   \<and> box_area ex_line = 0"
proof -
  let ?card = "Node ''3:1'' ''FRAME'' ''Card'' (Some (rect 0 0 10 10)) [ex_line]"
  let ?page = "Node ''0:1'' ''CANVAS'' ''Page 1'' None [?card]"
  let ?doc = "Node ''0:0'' ''DOCUMENT'' ''Document'' None [?page]"
  let ?c = "(ex_line, [?doc, ?page, ?card, ex_line])"
  have s: "selected 5 5 ex_degenerate = Some ex_line" by (rule selected_ex_degenerate)
  have d: "document ex_degenerate = Some ?doc" by (simp add: ex_degenerate_def)
  have m: "?c \<in> set (preorder ?doc [])" by (simp add: ex_line_def)
  have c: "candidate 5 5 ?c" by (simp add: ex_defs geo_defs)
  have z: "box_area (fst ?c) = 0" by (simp add: ex_defs box_area_def)
  from selected_node_has_box_containing_point[OF s]
  have f: "isFrameNode ex_line"
    and a: "\<forall>doc c. document ex_degenerate = Some doc \<and> c \<in> set (preorder doc [])
           \<and> candidate 5 5 c \<and> box_area (fst c) = 0 \<longrightarrow> box_area ex_line = 0"
    by blast+
  from a d m c z have "box_area ex_line = 0" by blast
  moreover have "absoluteBoundingBox ex_line = Some (rect 5 0 0 10)"
    by (simp add: ex_defs)
  ultimately show ?thesis using s f by simp
qed

text \<open>
  C3, as stated, fails: in \<open>ex_degenerate\<close> the frame \<open>Divider\<close> has a box of width 0 on
  which the point \<open>(5, 5)\<close> lies; its score is \<open>1000000 / 0 = Infinity\<close> and it is selected
  instead of the enclosing frame of area 100.
\<close>

theorem zero_width_box_selected_counterexample:
  "absoluteBoundingBox ex_line = Some (rect 5 0 0 10)
   \<and> scan_frames 5 5 ex_degenerate =
       Inr \<lparr>bestMatchNode = Some ex_line,
            bestMatchPath = [Node ''0:0'' ''DOCUMENT'' ''Document'' None
                               [Node ''0:1'' ''CANVAS'' ''Page 1'' None
                                  [Node ''3:1'' ''FRAME'' ''Card'' (Some (rect 0 0 10 10)) [ex_line]]],
                             Node ''0:1'' ''CANVAS'' ''Page 1'' None
                                  [Node ''3:1'' ''FRAME'' ''Card'' (Some (rect 0 0 10 10)) [ex_line]],
                             Node ''3:1'' ''FRAME'' ''Card'' (Some (rect 0 0 10 10)) [ex_line],
                             ex_line],
            bestScore = PosInf\<rparr>
   \<and> findFrameAtCoordinates 5 5 ex_degenerate =
       Inr (Some \<lparr>nodeId = ''3:2'', frameName = ''Divider'', pageName = ''Page 1'',
                  fullPath = ''Card > Divider''\<rparr>)"
  by (simp add: findFrameAtCoordinates_def scan_frames_def visit_def best_init_def ex_defs geo_defs
      buildFrameInfoFromPath_def or_else_def fl_vals)

subsection \<open>Resolution by identifier\<close>

text \<open>
  C1 does not hold of the code. \<open>findFrameInfo\<close> builds the ancestor chain in the
  argument \<open>currentPath\<close> of \<open>findNode\<close> and then discards it: \<open>path\<close> only ever receives the
  page. In \<open>ex_file\<close> the frame \<open>Header\<close> (identifier \<open>1:2\<close>) and the text node inside it
  (identifier \<open>1:3\<close>) both resolve to the container name \<open>Root\<close> and the full path
  \<open>Root\<close>, although \<open>Header\<close> is a container-kind ancestor-or-self of both.
\<close>

theorem findFrameInfo_nested_frame_yields_Root:
  "isFrameNode ex_header
   \<and> findFrameInfo ''1:2'' ex_file =
       Some \<lparr>nodeId = ''1:2'', frameName = ''Root'', pageName = ''Page 1'', fullPath = ''Root''\<rparr>
   \<and> findFrameInfo ''1:3'' ex_file =
       Some \<lparr>nodeId = ''1:3'', frameName = ''Root'', pageName = ''Page 1'', fullPath = ''Root''\<rparr>"
  by (simp add: findFrameInfo_def ex_defs isFrameNode_def or_else_def Let_def)

text \<open>In general, every result of \<open>findFrameInfo\<close> names the container \<open>Root\<close>.\<close>

lemma search_pages_path:
  "search_pages t pages pn [] = (True, pn', path) \<Longrightarrow>
     \<exists>page. path = [page] \<and> node_type page = ''CANVAS'' \<and> pn' = node_name page"
  by (induction pages arbitrary: pn) (auto split: if_splits)

lemma findFrameInfo_Root:
  assumes "findFrameInfo t fd = Some info"
  shows "frameName info = ''Root'' \<and> fullPath info = ''Root'' \<and> nodeId info = t"
proof -
  from assms obtain doc pn path where
    s: "document fd = Some doc" "search_pages t (children doc) [] [] = (True, pn, path)"
    by (auto simp: findFrameInfo_def Let_def split: option.splits prod.splits if_splits)
  from search_pages_path[OF s(2)] obtain page where
    p: "path = [page]" "node_type page = ''CANVAS''" by blast
  show ?thesis using assms s p
    by (auto simp: findFrameInfo_def isFrameNode_def or_else_def Let_def)
qed

subsection \<open>The structure cache\<close>

lemmas cache_ex_defs = ex_cache_def ex_entry_def ex_info_def ex_env_def

lemma DAY_val: "DAY = 86400000" by (simp add: DAY_def)

lemma cached_hitD:
  assumes "getCachedFrameInfo now c fk key = (Some info, c')"
  shows "c' = c \<and> (\<exists>entry. c fk = Some entry \<and> frameMap entry key = Some info
            \<and> now - lastUpdated entry \<le> DAY)"
  using assms by (auto simp: getCachedFrameInfo_def Let_def split: option.splits if_splits)

lemma cached_hitI:
  assumes "c fk = Some entry" "frameMap entry key = v" "now - lastUpdated entry \<le> DAY"
  shows "getCachedFrameInfo now c fk key = (v, c)"
  using assms by (simp add: getCachedFrameInfo_def Let_def)

lemma cached_expired:
  assumes "c fk = Some entry" "now - lastUpdated entry > DAY"
  shows "getCachedFrameInfo now c fk key = (None, c(fk := None))"
  using assms by (simp add: getCachedFrameInfo_def Let_def)

lemma cacheFrameInfo_stored:
  "\<exists>entry. cacheFrameInfo t c fk key info fk = Some entry \<and> frameMap entry key = Some info
      \<and> lastUpdated entry = (case c fk of None \<Rightarrow> t | Some old \<Rightarrow> lastUpdated old)"
  by (auto simp: cacheFrameInfo_def Let_def split: option.splits)

lemma fetch_requests: "requests (snd (fetchFileStructure r now s fk)) = requests s + 1"
  by (auto simp: fetchFileStructure_def Let_def split: response.splits)

lemma fetch_fails_None: "fetch_fails r \<Longrightarrow> fst (fetchFileStructure r now s fk) = None"
  by (auto simp: fetchFileStructure_def fetch_fails_def Let_def split: response.splits)

lemma byNodeId_cases:
  "getFrameInfoByNodeId e s fk nid =
    (case getCachedFrameInfo (t_read e) (cache s) fk nid of
       (Some info, c1) \<Rightarrow> (Inr (Some info), s\<lparr>cache := c1\<rparr>)
     | (None, c1) \<Rightarrow>
        (case fetchFileStructure (net e) (t_fetched e) (s\<lparr>cache := c1\<rparr>) fk of
           (None, s2) \<Rightarrow> (Inr None, s2)
         | (Some fd, s2) \<Rightarrow>
            (case findFrameInfo nid fd of
               Some info \<Rightarrow> (Inr (Some info), s2\<lparr>cache := cacheFrameInfo (t_cached e) (cache s2) fk nid info\<rparr>)
             | None \<Rightarrow> (Inr None, s2))))"
  by (simp add: getFrameInfoByNodeId_def Let_def split: prod.splits option.splits)

lemma byCoordinates_cases:
  "getFrameInfoByCoordinates e s fk x y =
    (case getCachedFrameInfo (t_read e) (cache s) fk (coordKey e x y) of
       (Some info, c1) \<Rightarrow> (Inr (Some info), s\<lparr>cache := c1\<rparr>)
     | (None, c1) \<Rightarrow>
        (case fetchFileStructure (net e) (t_fetched e) (s\<lparr>cache := c1\<rparr>) fk of
           (None, s2) \<Rightarrow> (Inr None, s2)
         | (Some fd, s2) \<Rightarrow>
            (case findFrameAtCoordinates x y fd of
               Inl err \<Rightarrow> (Inl err, s2)
             | Inr (Some info) \<Rightarrow> (Inr (Some info), s2\<lparr>cache := cacheFrameInfo (t_cached e) (cache s2) fk (coordKey e x y) info\<rparr>)
             | Inr None \<Rightarrow> (Inr None, s2))))"
  by (simp add: getFrameInfoByCoordinates_def Let_def split: prod.splits option.splits sum.splits)

lemma byNodeId_resolve_with:
  "getFrameInfoByNodeId e s fk nid = resolve_with e s fk nid (\<lambda>fd. Inr (findFrameInfo nid fd))"
  by (simp add: byNodeId_cases resolve_with_def split: prod.splits option.splits)

lemma byCoordinates_resolve_with:
  "getFrameInfoByCoordinates e s fk x y = resolve_with e s fk (coordKey e x y) (findFrameAtCoordinates x y)"
  by (simp add: byCoordinates_cases resolve_with_def split: prod.splits option.splits)

lemma getFrameInfo_resolve_with:
  "getFrameInfo e s fk nid co =
    (case resolution_key e nid co of
       None \<Rightarrow> (Inr None, s)
     | Some key \<Rightarrow> resolve_with e s fk key
         (if nid \<noteq> [] \<and> nid \<noteq> ''0:1'' then (\<lambda>fd. Inr (findFrameInfo nid fd))
          else (case co of Some (Some x, Some y) \<Rightarrow> findFrameAtCoordinates x y | _ \<Rightarrow> (\<lambda>fd. Inr None))))"
  by (auto simp: getFrameInfo_def resolution_key_def byNodeId_resolve_with byCoordinates_resolve_with
      split: option.splits prod.splits)

lemma update_cache_same: "s\<lparr>cache := cache s\<rparr> = (s::fetcher)"
  by simp

lemma resolve_with_hit:
  assumes "cache s fk = Some entry" "frameMap entry key = Some info"
    "t_read e - lastUpdated entry \<le> DAY"
  shows "resolve_with e s fk key search = (Inr (Some info), s)"
  using cached_hitI[of "cache s" fk entry key "Some info" "t_read e"] assms
  by (simp add: resolve_with_def)

lemma fetch_keeps_entry:
  assumes "fetchFileStructure r now s fk = (v, s2)"
  shows "\<exists>entry. (v \<noteq> None \<longrightarrow> cache s2 fk = Some entry)"
  using assms
  by (auto simp: fetchFileStructure_def Let_def split: response.splits if_splits)

lemma resolve_with_requests:
  assumes "resolve_with e s fk key search = (r, s1)"
  shows "requests s1 =
     requests s + (if fst (getCachedFrameInfo (t_read e) (cache s) fk key) = None then 1 else 0)"
proof (cases "getCachedFrameInfo (t_read e) (cache s) fk key")
  case (Pair v c1)
  show ?thesis
  proof (cases v)
    case None
    obtain d s2 where f: "fetchFileStructure (net e) (t_fetched e) (s\<lparr>cache := c1\<rparr>) fk = (d, s2)"
      by (cases "fetchFileStructure (net e) (t_fetched e) (s\<lparr>cache := c1\<rparr>) fk")
    have "requests s2 = requests s + 1"
      using fetch_requests[of "net e" "t_fetched e" "s\<lparr>cache := c1\<rparr>" fk] f by simp
    then show ?thesis using assms Pair None f
      by (auto simp: resolve_with_def split: option.splits sum.splits)
  next
    case (Some info)
    then show ?thesis using assms Pair by (auto simp: resolve_with_def)
  qed
qed

lemma resolve_with_idem:
  assumes "resolve_with e1 s fk key search = (Inr (Some info), s1)"
  shows "\<exists>entry. cache s1 fk = Some entry \<and> frameMap entry key = Some info
     \<and> (\<forall>e2 search2. t_read e2 - lastUpdated entry \<le> DAY \<longrightarrow>
            resolve_with e2 s1 fk key search2 = (Inr (Some info), s1))"
proof -
  have "\<exists>entry. cache s1 fk = Some entry \<and> frameMap entry key = Some info"
  proof (cases "getCachedFrameInfo (t_read e1) (cache s) fk key")
    case (Pair v c1)
    show ?thesis
    proof (cases v)
      case (Some i)
      with Pair assms have "i = info" "s1 = s\<lparr>cache := c1\<rparr>" by (auto simp: resolve_with_def)
      with cached_hitD[of "t_read e1" "cache s" fk key info c1] Pair Some
      show ?thesis by auto
    next
      case None
      obtain d s2 where f: "fetchFileStructure (net e1) (t_fetched e1) (s\<lparr>cache := c1\<rparr>) fk = (d, s2)"
        by (cases "fetchFileStructure (net e1) (t_fetched e1) (s\<lparr>cache := c1\<rparr>) fk")
      from assms Pair None f have
        "s1 = s2\<lparr>cache := cacheFrameInfo (t_cached e1) (cache s2) fk key info\<rparr>"
        by (auto simp: resolve_with_def split: option.splits sum.splits)
      with cacheFrameInfo_stored[of "t_cached e1" "cache s2" fk key info]
      show ?thesis by auto
    qed
  qed
  then obtain entry where en: "cache s1 fk = Some entry" "frameMap entry key = Some info" by blast
  have "resolve_with e2 s1 fk key search2 = (Inr (Some info), s1)"
    if "t_read e2 - lastUpdated entry \<le> DAY" for e2 search2
    using resolve_with_hit[OF en that] .
  with en show ?thesis by blast
qed

lemma resolve_with_fetch_fails:
  assumes "fetch_fails (net e)"
  shows "\<exists>r s'. resolve_with e s fk key search = (Inr r, s')
      \<and> (requests s' = requests s \<or> r = None)"
proof (cases "getCachedFrameInfo (t_read e) (cache s) fk key")
  case (Pair v c1)
  show ?thesis
  proof (cases v)
    case None
    obtain d s2 where f: "fetchFileStructure (net e) (t_fetched e) (s\<lparr>cache := c1\<rparr>) fk = (d, s2)"
      by (cases "fetchFileStructure (net e) (t_fetched e) (s\<lparr>cache := c1\<rparr>) fk")
    have "d = None" using fetch_fails_None[OF assms, of "t_fetched e" "s\<lparr>cache := c1\<rparr>" fk] f by simp
    then show ?thesis using Pair None f by (simp add: resolve_with_def)
  next
    case (Some info)
    then show ?thesis using Pair by (simp add: resolve_with_def)
  qed
qed

text \<open>
  C4 (amended). On a successful fetch (status 200), \<open>FrameInfoFetcher.fetchFileStructure\<close>
  returns the body, counts one request, and creates the entry for the file key, with
  \<open>lastUpdated\<close> the current time, an empty resolution map and the structure attached,
  only when the cache holds no entry for that key; an entry that exists is left as it
  is. \<open>CoordinateBasedFrameDetector.fetchFileStructure\<close>, when it fetches (no entry
  younger than 24 hours) and the response is ok, does overwrite the entry.
\<close>

theorem fetchFileStructure_keeps_existing_entry:
  "fetchFileStructure (Response 200 data) now s fk =
     (data,
      \<lparr>cache = (case cache s fk of
                  None \<Rightarrow> (cache s)(fk \<mapsto> \<lparr>fileKey = fk, lastUpdated = now, frameMap = Map.empty,
                                           fileStructure = data\<rparr>)
                | Some entry \<Rightarrow> cache s),
       requests = requests s + 1\<rparr>)
   \<and> ((case cache s fk of None \<Rightarrow> True | Some cached \<Rightarrow> \<not> t_read e - lastUpdated cached < DAY)
        \<and> net e = Response status data \<and> 200 \<le> status \<and> status \<le> 299
      \<longrightarrow> detector_fetchFileStructure e s fk =
           (data,
            \<lparr>cache = (cache s)(fk \<mapsto> \<lparr>fileKey = fk, lastUpdated = t_fetched e,
                                       frameMap = Map.empty, fileStructure = data\<rparr>),
             requests = requests s + 1\<rparr>))"
  by (cases s) (auto simp: fetchFileStructure_def detector_fetchFileStructure_def split: option.splits)

theorem fetchFileStructure_keeps_existing_entry_witness:
  "fetchFileStructure (Response 200 (Some ex_file)) 5000 \<lparr>cache = Map.empty, requests = 0\<rparr> ''K''
     = (Some ex_file,
        \<lparr>cache = [''K'' \<mapsto> \<lparr>fileKey = ''K'', lastUpdated = 5000, frameMap = Map.empty,
                             fileStructure = Some ex_file\<rparr>],
         requests = 1\<rparr>)
   \<and> detector_fetchFileStructure (ex_env (1000 + DAY) (Response 200 (Some ex_file)))
        \<lparr>cache = ex_cache, requests = 0\<rparr> ''K''
     = (Some ex_file,
        \<lparr>cache = ex_cache(''K'' \<mapsto> \<lparr>fileKey = ''K'', lastUpdated = 1001 + DAY, frameMap = Map.empty,
                             fileStructure = Some ex_file\<rparr>),
         requests = 1\<rparr>)"
  using fetchFileStructure_keeps_existing_entry[of "Some ex_file" 5000 "\<lparr>cache = Map.empty, requests = 0\<rparr>" "''K''"]
    fetchFileStructure_keeps_existing_entry[of "Some ex_file" 0 "\<lparr>cache = ex_cache, requests = 0\<rparr>" "''K''"
          "ex_env (1000 + DAY) (Response 200 (Some ex_file))" 200]
  by (simp add: cache_ex_defs)

text \<open>
  C4, as stated, fails on \<open>FrameInfoFetcher.fetchFileStructure\<close>: with an entry for \<open>K\<close>
  in the cache (written at time 1000, one resolved anchor, no structure), a successful
  fetch at time 5000 leaves the cache exactly as it was.
\<close>

theorem existing_entry_not_replaced_counterexample:
  "ex_cache ''K'' = Some ex_entry
   \<and> fetchFileStructure (Response 200 (Some ex_file)) 5000 \<lparr>cache = ex_cache, requests = 0\<rparr> ''K''
       = (Some ex_file, \<lparr>cache = ex_cache, requests = 1\<rparr>)
   \<and> lastUpdated ex_entry = 1000 \<and> frameMap ex_entry ''1:2'' = Some ex_info
   \<and> fileStructure ex_entry = None"
  by (simp add: fetchFileStructure_def cache_ex_defs)

text \<open>
  C5 (amended). A read of a cached resolution consults the entry if and only if
  \<open>now - lastUpdated \<le> 24 h\<close>; an entry more than 24 hours old is deleted
  by the read and treated as absent, and a resolver call that finds it so makes exactly
  one structure request.
\<close>

theorem cache_entry_consulted_up_to_24h:
  assumes "cache s fk = Some entry"
  shows "(t - lastUpdated entry \<le> DAY \<longrightarrow>
            getCachedFrameInfo t (cache s) fk key = (frameMap entry key, cache s))
    \<and> (t - lastUpdated entry > DAY \<longrightarrow>
            getCachedFrameInfo t (cache s) fk key = (None, (cache s)(fk := None)))
    \<and> (t_read e - lastUpdated entry > DAY \<and> resolution_key e nid co \<noteq> None \<longrightarrow>
            requests (snd (getFrameInfo e s fk nid co)) = requests s + 1)"
proof -
  have 3: "requests (snd (getFrameInfo e s fk nid co)) = requests s + 1"
    if old: "t_read e - lastUpdated entry > DAY" and k: "resolution_key e nid co = Some k" for k
  proof -
    let ?search = "(if nid \<noteq> [] \<and> nid \<noteq> ''0:1'' then (\<lambda>fd. Inr (findFrameInfo nid fd))
          else (case co of Some (Some x, Some y) \<Rightarrow> findFrameAtCoordinates x y | _ \<Rightarrow> (\<lambda>fd. Inr None)))"
    have g: "getFrameInfo e s fk nid co = resolve_with e s fk k ?search"
      using k by (simp add: getFrameInfo_resolve_with)
    have "fst (getCachedFrameInfo (t_read e) (cache s) fk k) = None"
      using cached_expired[of "cache s" fk entry "t_read e" k] assms old by simp
    with resolve_with_requests[of e s fk k ?search "fst (resolve_with e s fk k ?search)"
        "snd (resolve_with e s fk k ?search)"]
    show ?thesis unfolding g by simp
  qed
  show ?thesis
    using cached_hitI[of "cache s" fk entry key "frameMap entry key" t] cached_expired[of "cache s" fk entry t key]
      assms 3 by auto
qed

theorem cache_entry_consulted_up_to_24h_witness:
  "cache \<lparr>cache = ex_cache, requests = 0\<rparr> ''K'' = Some ex_entry
   \<and> getCachedFrameInfo 1005 ex_cache ''K'' ''1:2'' = (Some ex_info, ex_cache)
   \<and> getCachedFrameInfo (1001 + DAY) ex_cache ''K'' ''1:2'' = (None, ex_cache(''K'' := None))
   \<and> requests (snd (getFrameInfo (ex_env (1001 + DAY) (Response 200 (Some ex_file)))
         \<lparr>cache = ex_cache, requests = 0\<rparr> ''K'' ''1:2'' None)) = 1"
proof -
  have h: "cache \<lparr>cache = ex_cache, requests = 0\<rparr> ''K'' = Some ex_entry"
    by (simp add: ex_cache_def)
  have k: "resolution_key (ex_env (1001 + DAY) (Response 200 (Some ex_file))) ''1:2'' None \<noteq> None"
    by (simp add: resolution_key_def)
  show ?thesis
    using cache_entry_consulted_up_to_24h[OF h, of 1005 "''1:2''" "ex_env (1001 + DAY) (Response 200 (Some ex_file))" "''1:2''" None]
      cache_entry_consulted_up_to_24h[OF h, of "1001 + DAY" "''1:2''" "ex_env (1001 + DAY) (Response 200 (Some ex_file))" "''1:2''" None]
      h k
    by (simp add: ex_entry_def ex_env_def DAY_val)
qed

text \<open>
  C5, as stated, fails at the boundary: an entry that is exactly 24 hours old is still
  consulted and not evicted, and the resolver answers from it without a request.
\<close>

theorem entry_exactly_24h_old_consulted_counterexample:
  "(1000 + DAY) - lastUpdated ex_entry = DAY
   \<and> getCachedFrameInfo (1000 + DAY) ex_cache ''K'' ''1:2'' = (Some ex_info, ex_cache)
   \<and> getFrameInfo (ex_env (1000 + DAY) (Response 200 (Some ex_file)))
        \<lparr>cache = ex_cache, requests = 0\<rparr> ''K'' ''1:2'' None
       = (Inr (Some ex_info), \<lparr>cache = ex_cache, requests = 0\<rparr>)"
  by (simp add: getCachedFrameInfo_def getFrameInfo_def getFrameInfoByNodeId_def cache_ex_defs DAY_val)

subsection \<open>The resolver\<close>

lemma findFrameInfo_ex_file:
  "findFrameInfo ''1:3'' ex_file =
     Some \<lparr>nodeId = ''1:3'', frameName = ''Root'', pageName = ''Page 1'', fullPath = ''Root''\<rparr>"
  by (simp add: findFrameInfo_def ex_defs isFrameNode_def or_else_def Let_def)

lemma first_call:
  "getFrameInfo (ex_env 2000 (Response 200 (Some ex_file))) \<lparr>cache = Map.empty, requests = 0\<rparr>
        ''K'' ''1:3'' None
     = (Inr (Some \<lparr>nodeId = ''1:3'', frameName = ''Root'', pageName = ''Page 1'', fullPath = ''Root''\<rparr>),
        \<lparr>cache = [''K'' \<mapsto> \<lparr>fileKey = ''K'', lastUpdated = 2001,
             frameMap = [''1:3'' \<mapsto> \<lparr>nodeId = ''1:3'', frameName = ''Root'', pageName = ''Page 1'',
                                     fullPath = ''Root''\<rparr>],
             fileStructure = Some ex_file\<rparr>],
         requests = 1\<rparr>)"
  by (simp add: getFrameInfo_def getFrameInfoByNodeId_def getCachedFrameInfo_def
      fetchFileStructure_def cacheFrameInfo_def ex_env_def findFrameInfo_ex_file)

text \<open>
  C6. If \<open>getFrameInfo\<close> returns a frame info, the cache then holds an entry for the file
  key, and a second call with the same arguments on the fetcher it left behind, at any
  time at which that entry has not expired, returns the same frame info and leaves the
  fetcher unchanged whatever the network would answer: no request is made. The first
  call made one request if it missed the resolution cache and none otherwise, so a
  resolution from a miss costs exactly one request over the two calls.
\<close>

theorem second_resolve_hits_cache:
  assumes "getFrameInfo e1 s fk nid co = (Inr (Some info), s1)"
  shows "(\<exists>entry. cache s1 fk = Some entry
           \<and> (\<forall>e2. numberToString e2 = numberToString e1 \<and> t_read e2 - lastUpdated entry \<le> DAY
                 \<longrightarrow> getFrameInfo e2 s1 fk nid co = (Inr (Some info), s1)))
    \<and> (\<forall>key. resolution_key e1 nid co = Some key
            \<and> fst (getCachedFrameInfo (t_read e1) (cache s) fk key) = None
          \<longrightarrow> requests s1 = requests s + 1)
    \<and> requests s1 \<le> requests s + 1"
proof -
  let ?search = "(if nid \<noteq> [] \<and> nid \<noteq> ''0:1'' then (\<lambda>fd. Inr (findFrameInfo nid fd))
          else (case co of Some (Some x, Some y) \<Rightarrow> findFrameAtCoordinates x y | _ \<Rightarrow> (\<lambda>fd. Inr None)))"
  from assms obtain key where key: "resolution_key e1 nid co = Some key"
    and r: "resolve_with e1 s fk key ?search = (Inr (Some info), s1)"
    by (auto simp: getFrameInfo_resolve_with split: option.splits)
  from resolve_with_idem[OF r] obtain entry where
    en: "cache s1 fk = Some entry"
    and again: "\<And>e2 search2. t_read e2 - lastUpdated entry \<le> DAY \<Longrightarrow>
            resolve_with e2 s1 fk key search2 = (Inr (Some info), s1)"
    by blast
  have k2: "resolution_key e2 nid co = Some key" if "numberToString e2 = numberToString e1" for e2
  proof -
    have "resolution_key e2 nid co = resolution_key e1 nid co"
      using that by (simp add: resolution_key_def coordKey_def split: option.splits prod.splits)
    with key show ?thesis by simp
  qed
  have "getFrameInfo e2 s1 fk nid co = (Inr (Some info), s1)"
    if "numberToString e2 = numberToString e1" "t_read e2 - lastUpdated entry \<le> DAY" for e2
    using k2[OF that(1)] again[OF that(2)] by (simp add: getFrameInfo_resolve_with)
  with en have 1: "\<exists>entry. cache s1 fk = Some entry
           \<and> (\<forall>e2. numberToString e2 = numberToString e1 \<and> t_read e2 - lastUpdated entry \<le> DAY
                 \<longrightarrow> getFrameInfo e2 s1 fk nid co = (Inr (Some info), s1))"
    by blast
  have cnt: "requests s1 =
     requests s + (if fst (getCachedFrameInfo (t_read e1) (cache s) fk key) = None then 1 else 0)"
    using resolve_with_requests[OF r] .
  show ?thesis using 1 cnt key by auto
qed

theorem second_resolve_hits_cache_witness:
  "getFrameInfo (ex_env 2000 (Response 200 (Some ex_file))) \<lparr>cache = Map.empty, requests = 0\<rparr>
        ''K'' ''1:3'' None
     = (Inr (Some \<lparr>nodeId = ''1:3'', frameName = ''Root'', pageName = ''Page 1'', fullPath = ''Root''\<rparr>),
        \<lparr>cache = [''K'' \<mapsto> \<lparr>fileKey = ''K'', lastUpdated = 2001,
             frameMap = [''1:3'' \<mapsto> \<lparr>nodeId = ''1:3'', frameName = ''Root'', pageName = ''Page 1'',
                                     fullPath = ''Root''\<rparr>],
             fileStructure = Some ex_file\<rparr>],
         requests = 1\<rparr>)
   \<and> getFrameInfo (ex_env 3000 Throws)
        \<lparr>cache = [''K'' \<mapsto> \<lparr>fileKey = ''K'', lastUpdated = 2001,
             frameMap = [''1:3'' \<mapsto> \<lparr>nodeId = ''1:3'', frameName = ''Root'', pageName = ''Page 1'',
                                     fullPath = ''Root''\<rparr>],
             fileStructure = Some ex_file\<rparr>],
         requests = 1\<rparr>
        ''K'' ''1:3'' None
     = (Inr (Some \<lparr>nodeId = ''1:3'', frameName = ''Root'', pageName = ''Page 1'', fullPath = ''Root''\<rparr>),
        \<lparr>cache = [''K'' \<mapsto> \<lparr>fileKey = ''K'', lastUpdated = 2001,
             frameMap = [''1:3'' \<mapsto> \<lparr>nodeId = ''1:3'', frameName = ''Root'', pageName = ''Page 1'',
                                     fullPath = ''Root''\<rparr>],
             fileStructure = Some ex_file\<rparr>],
         requests = 1\<rparr>)"
proof -
  let ?info = "\<lparr>nodeId = ''1:3'', frameName = ''Root'', pageName = ''Page 1'', fullPath = ''Root''\<rparr>"
  let ?s1 = "\<lparr>cache = [''K'' \<mapsto> \<lparr>fileKey = ''K'', lastUpdated = 2001,
             frameMap = [''1:3'' \<mapsto> ?info], fileStructure = Some ex_file\<rparr>],
         requests = 1\<rparr>"
  from second_resolve_hits_cache[OF first_call]
  obtain entry where en: "cache ?s1 ''K'' = Some entry"
    and again: "\<forall>e2. numberToString e2 = numberToString (ex_env 2000 (Response 200 (Some ex_file)))
                 \<and> t_read e2 - lastUpdated entry \<le> DAY
                 \<longrightarrow> getFrameInfo e2 ?s1 ''K'' ''1:3'' None = (Inr (Some ?info), ?s1)"
    by blast
  from en have "lastUpdated entry = 2001" by auto
  then have "numberToString (ex_env 3000 Throws) = numberToString (ex_env 2000 (Response 200 (Some ex_file)))
      \<and> t_read (ex_env 3000 Throws) - lastUpdated entry \<le> DAY"
    by (simp add: ex_env_def DAY_val)
  with again have "getFrameInfo (ex_env 3000 Throws) ?s1 ''K'' ''1:3'' None = (Inr (Some ?info), ?s1)"
    by blast
  with first_call show ?thesis by simp
qed

text \<open>
  C8. When the structure request fails (the request throws, or the status is not 200),
  \<open>getFrameInfo\<close> settles with a value and never with an exception; if it made the
  request, the value is \<open>null\<close>. The frame lookup of the rendering loop therefore does
  not raise either, and the sync pass goes on.
\<close>

theorem fetch_failure_yields_absent:
  assumes "fetch_fails (net e)"
  shows "(\<exists>r s'. getFrameInfo e s fk nid co = (Inr r, s') \<and> (requests s' = requests s \<or> r = None))
     \<and> (\<exists>v. frame_lookup on fk e fo c = Inr v)"
proof -
  have 1: "\<exists>r s'. getFrameInfo e s fk nid co = (Inr r, s') \<and> (requests s' = requests s \<or> r = None)"
    for s nid co
    using resolve_with_fetch_fails[OF assms]
    by (auto simp: getFrameInfo_resolve_with split: option.splits)
  have 2: "\<exists>v. frame_lookup on fk e fo c = Inr v"
  proof (cases "\<exists>f m. fo = Some f \<and> client_meta c = Some m \<and> on \<and> truthy (meta_node_id m)")
    case True
    then obtain f m where fm: "fo = Some f" "client_meta c = Some m" "on" "truthy (meta_node_id m)"
      by blast
    from 1[of f "case meta_node_id m of Some i \<Rightarrow> i | None \<Rightarrow> []" "meta_node_offset m"]
    show ?thesis using fm by (auto simp: frame_lookup_def)
  next
    case False
    then show ?thesis by (auto simp: frame_lookup_def split: option.splits)
  qed
  show ?thesis using 1 2 by blast
qed

theorem fetch_failure_yields_absent_witness:
  "fetch_fails (net (ex_env 2000 Throws))
   \<and> fetch_fails (net (ex_env 2000 (Response 500 None)))
   \<and> getFrameInfo (ex_env 2000 Throws) \<lparr>cache = Map.empty, requests = 0\<rparr> ''K'' ''1:3'' None
       = (Inr None, \<lparr>cache = Map.empty, requests = 1\<rparr>)
   \<and> getFrameInfo (ex_env 2000 (Response 500 None)) \<lparr>cache = Map.empty, requests = 0\<rparr> ''K'' ''0:1''
         (Some (Some 5, Some 5))
       = (Inr None, \<lparr>cache = Map.empty, requests = 1\<rparr>)"
proof -
  have f1: "fetch_fails (net (ex_env 2000 Throws))"
    and f2: "fetch_fails (net (ex_env 2000 (Response 500 None)))"
    by (simp_all add: fetch_fails_def ex_env_def)
  have r1: "requests (snd (getFrameInfo (ex_env 2000 Throws) \<lparr>cache = Map.empty, requests = 0\<rparr> ''K'' ''1:3'' None)) = 1"
    and c1: "cache (snd (getFrameInfo (ex_env 2000 Throws) \<lparr>cache = Map.empty, requests = 0\<rparr> ''K'' ''1:3'' None)) = Map.empty"
    by (simp_all add: getFrameInfo_def getFrameInfoByNodeId_def getCachedFrameInfo_def
        fetchFileStructure_def ex_env_def)
  have r2: "requests (snd (getFrameInfo (ex_env 2000 (Response 500 None)) \<lparr>cache = Map.empty, requests = 0\<rparr> ''K'' ''0:1''
         (Some (Some 5, Some 5)))) = 1"
    and c2: "cache (snd (getFrameInfo (ex_env 2000 (Response 500 None)) \<lparr>cache = Map.empty, requests = 0\<rparr> ''K'' ''0:1''
         (Some (Some 5, Some 5)))) = Map.empty"
    by (simp_all add: getFrameInfo_def getFrameInfoByCoordinates_def getCachedFrameInfo_def
        fetchFileStructure_def ex_env_def)
  have a: "getFrameInfo (ex_env 2000 Throws) \<lparr>cache = Map.empty, requests = 0\<rparr> ''K'' ''1:3'' None
       = (Inr None, \<lparr>cache = Map.empty, requests = 1\<rparr>)"
  proof -
    from fetch_failure_yields_absent[OF f1, of "\<lparr>cache = Map.empty, requests = 0\<rparr>" "''K''" "''1:3''" None]
    obtain r s' where g: "getFrameInfo (ex_env 2000 Throws) \<lparr>cache = Map.empty, requests = 0\<rparr>
          ''K'' ''1:3'' None = (Inr r, s')"
      and d: "requests s' = requests \<lparr>cache = Map.empty, requests = 0\<rparr> \<or> r = None"
      by blast
    from r1 c1 g have "requests s' = 1" "cache s' = Map.empty" by simp_all
    then have "s' = \<lparr>cache = Map.empty, requests = 1\<rparr>" by (cases s') simp
    moreover from d \<open>requests s' = 1\<close> have "r = None" by simp
    ultimately show ?thesis using g by simp
  qed
  have b: "getFrameInfo (ex_env 2000 (Response 500 None)) \<lparr>cache = Map.empty, requests = 0\<rparr> ''K'' ''0:1''
         (Some (Some 5, Some 5))
       = (Inr None, \<lparr>cache = Map.empty, requests = 1\<rparr>)"
  proof -
    from fetch_failure_yields_absent[OF f2, of "\<lparr>cache = Map.empty, requests = 0\<rparr>" "''K''" "''0:1''" "Some (Some 5, Some 5)"]
    obtain r s' where g: "getFrameInfo (ex_env 2000 (Response 500 None))
          \<lparr>cache = Map.empty, requests = 0\<rparr> ''K'' ''0:1'' (Some (Some 5, Some 5)) = (Inr r, s')"
      and d: "requests s' = requests \<lparr>cache = Map.empty, requests = 0\<rparr> \<or> r = None"
      by blast
    from r2 c2 g have "requests s' = 1" "cache s' = Map.empty" by simp_all
    then have "s' = \<lparr>cache = Map.empty, requests = 1\<rparr>" by (cases s') simp
    moreover from d \<open>requests s' = 1\<close> have "r = None" by simp
    ultimately show ?thesis using g by simp
  qed
  show ?thesis using f1 f2 a b by simp
qed

subsection \<open>The rendered document\<close>

lemma render_entries_props:
  assumes "render_entries d on key envs k fo cs = Inr (es, fo')"
  shows "list_all2 (\<lambda>e c.
            (checkbox e = ''- [x]'' \<longleftrightarrow> resolved_at c \<noteq> None)
          \<and> (checkbox e = ''- [ ]'' \<longleftrightarrow> resolved_at c = None)
          \<and> entry_created e = toLocaleString d (created_at c)
          \<and> entry_message e = indent_lines (message c)
          \<and> entry_author e = user_handle c) es cs"
  using assms
proof (induction cs arbitrary: k fo es)
  case Nil
  then show ?case by simp
next
  case (Cons c cs)
  from Cons.prems obtain fi fo1 es1 where
    l: "frame_lookup on key (envs k) fo c = Inr (fi, fo1)"
    and r: "render_entries d on key envs (k + 1) fo1 cs = Inr (es1, fo')"
    and es: "es = \<lparr>checkbox = (if resolved_at c \<noteq> None then ''- [x]'' else ''- [ ]''),
                        entry_created = toLocaleString d (created_at c),
                        entry_message = indent_lines (message c),
                        entry_author = user_handle c,
                        entry_frame = fi,
                        entry_status = (case resolved_at c of
               Some r \<Rightarrow> ''Resolved: '' @ toLocaleString d r
             | None \<Rightarrow> ''Open'')\<rparr> # es1"
    by (auto simp: Let_def split: sum.splits prod.splits)
  from Cons.IH[OF r] show ?case unfolding es by simp
qed

lemma render_entries_total:
  assumes "\<not> on \<or> fo = None"
  shows "\<exists>es. render_entries d on key envs k fo cs = Inr (es, fo)"
proof (induction cs arbitrary: k)
  case Nil
  then show ?case by simp
next
  case (Cons c cs)
  have "frame_lookup on key (envs k) fo c = Inr (None, fo)"
    using assms by (auto simp: frame_lookup_def split: option.splits)
  with Cons[of "k + 1"] show ?case by (auto simp: Let_def)
qed

lemma sort_comments_sorted:
  "sorted_wrt (\<lambda>a b. getTime d (created_at a) \<ge> getTime d (created_at b)) (sort_comments d comments)"
proof -
  have "sorted (map (\<lambda>c. - getTime d (created_at c)) (sort_comments d comments))"
    unfolding sort_comments_def by (rule sorted_sort_key)
  then show ?thesis by (simp add: sorted_map)
qed

lemma sort_comments_mset: "mset (sort_comments d comments) = mset comments"
  by (simp add: sort_comments_def)

lemma truthy_iff: "v \<noteq> Some [] \<Longrightarrow> truthy v \<longleftrightarrow> v \<noteq> None"
  by (cases v) (simp_all add: truthy_def)

text \<open>
  C9. Let no comment carry the empty string as resolution timestamp (the API gives
  \<open>null\<close> or a timestamp). When no frame lookup can raise (the setting is off or there
  is no fetcher) a document is rendered; and whenever a document is rendered, its
  header reports \<open>total_comments\<close> as the number of comments, \<open>resolved_comments\<close> as the
  number of comments whose \<open>resolved_at\<close> is not \<open>null\<close> and \<open>open_comments\<close> as the number
  whose \<open>resolved_at\<close> is \<open>null\<close>; its entries render, one for one, a permutation of the
  comments that is ordered by creation time descending; and the checkbox of an entry is
  \<open>- [x]\<close> if and only if its comment is resolved, and \<open>- [ ]\<close> otherwise.
\<close>

theorem rendered_document_counts_and_order:
  assumes "\<forall>c\<in>set comments. resolved_at c \<noteq> Some []"
  shows "((\<not> on \<or> fo = None) \<longrightarrow>
            (\<exists>doc. saveCommentsToSingleFile d on fo envs file comments = Inr (doc, fo)))
    \<and> (\<forall>doc fo'. saveCommentsToSingleFile d on fo envs file comments = Inr (doc, fo') \<longrightarrow>
          total_comments (head_block doc) = length comments
        \<and> resolved_comments (head_block doc) = length (filter (\<lambda>c. resolved_at c \<noteq> None) comments)
        \<and> open_comments (head_block doc) = length (filter (\<lambda>c. resolved_at c = None) comments)
        \<and> (\<exists>cs. mset cs = mset comments
              \<and> sorted_wrt (\<lambda>a b. getTime d (created_at a) \<ge> getTime d (created_at b)) cs
              \<and> list_all2 (\<lambda>e c.
                    (checkbox e = ''- [x]'' \<longleftrightarrow> resolved_at c \<noteq> None)
                  \<and> (checkbox e = ''- [ ]'' \<longleftrightarrow> resolved_at c = None)
                  \<and> entry_created e = toLocaleString d (created_at c)
                  \<and> entry_message e = indent_lines (message c)
                  \<and> entry_author e = user_handle c) (entries doc) cs))"
proof -
  have f1: "filter (\<lambda>c. truthy (resolved_at c)) comments = filter (\<lambda>c. resolved_at c \<noteq> None) comments"
    by (rule filter_cong) (simp_all add: truthy_iff assms)
  have f2: "filter (\<lambda>c. \<not> truthy (resolved_at c)) comments = filter (\<lambda>c. resolved_at c = None) comments"
    by (rule filter_cong) (simp_all add: truthy_iff assms)
  have tot: "\<exists>doc. saveCommentsToSingleFile d on fo envs file comments = Inr (doc, fo)"
    if "\<not> on \<or> fo = None"
    using render_entries_total[OF that, of d "file_key file" envs 0 "sort_comments d comments"]
    by (auto simp: saveCommentsToSingleFile_def Let_def)
  have props: "total_comments (head_block doc) = length comments
        \<and> resolved_comments (head_block doc) = length (filter (\<lambda>c. resolved_at c \<noteq> None) comments)
        \<and> open_comments (head_block doc) = length (filter (\<lambda>c. resolved_at c = None) comments)
        \<and> (\<exists>cs. mset cs = mset comments
              \<and> sorted_wrt (\<lambda>a b. getTime d (created_at a) \<ge> getTime d (created_at b)) cs
              \<and> list_all2 (\<lambda>e c.
                    (checkbox e = ''- [x]'' \<longleftrightarrow> resolved_at c \<noteq> None)
                  \<and> (checkbox e = ''- [ ]'' \<longleftrightarrow> resolved_at c = None)
                  \<and> entry_created e = toLocaleString d (created_at c)
                  \<and> entry_message e = indent_lines (message c)
                  \<and> entry_author e = user_handle c) (entries doc) cs)"
    if s: "saveCommentsToSingleFile d on fo envs file comments = Inr (doc, fo')" for doc fo'
  proof -
    from s obtain es where
      r: "render_entries d on (file_key file) envs 0 fo (sort_comments d comments) = Inr (es, fo')"
      and doc: "doc = \<lparr>head_block = \<lparr>title = file_name file @ '' - Figma Comments'',
             figma_file_key = file_key file,
             total_comments = length comments,
             resolved_comments = length (filter (\<lambda>c. truthy (resolved_at c)) comments),
             open_comments = length (filter (\<lambda>c. \<not> truthy (resolved_at c)) comments)\<rparr>, entries = es\<rparr>"
      by (auto simp: saveCommentsToSingleFile_def Let_def split: sum.splits prod.splits)
    have "list_all2 (\<lambda>e c.
                    (checkbox e = ''- [x]'' \<longleftrightarrow> resolved_at c \<noteq> None)
                  \<and> (checkbox e = ''- [ ]'' \<longleftrightarrow> resolved_at c = None)
                  \<and> entry_created e = toLocaleString d (created_at c)
                  \<and> entry_message e = indent_lines (message c)
                  \<and> entry_author e = user_handle c) (entries doc) (sort_comments d comments)"
      using render_entries_props[OF r] doc by simp
    with sort_comments_mset[of d comments] sort_comments_sorted[of d comments]
    have "\<exists>cs. mset cs = mset comments
              \<and> sorted_wrt (\<lambda>a b. getTime d (created_at a) \<ge> getTime d (created_at b)) cs
              \<and> list_all2 (\<lambda>e c.
                    (checkbox e = ''- [x]'' \<longleftrightarrow> resolved_at c \<noteq> None)
                  \<and> (checkbox e = ''- [ ]'' \<longleftrightarrow> resolved_at c = None)
                  \<and> entry_created e = toLocaleString d (created_at c)
                  \<and> entry_message e = indent_lines (message c)
                  \<and> entry_author e = user_handle c) (entries doc) cs"
      by blast
    then show ?thesis using doc f1 f2 by simp
  qed
  show ?thesis using tot props by blast
qed

lemma ex_comments_rendered:
  "saveCommentsToSingleFile ex_dates False None (\<lambda>k. ex_env 0 Throws) ex_figma_file ex_comments =
     Inr (\<lparr>head_block =
             \<lparr>title = ''Design - Figma Comments'', figma_file_key = ''ABC123XYZ'',
              total_comments = 3, resolved_comments = 1, open_comments = 2\<rparr>,
           entries =
             [\<lparr>checkbox = ''- [ ]'', entry_created = ''2025-07-20T10:00:00Z'',
               entry_message = ''third'', entry_author = ''kato'', entry_frame = None,
               entry_status = ''Open''\<rparr>,
              \<lparr>checkbox = ''- [x]'', entry_created = ''2025-07-19T10:00:00Z'',
               entry_message = ''second'', entry_author = ''kato'', entry_frame = None,
               entry_status = ''Resolved: 2025-07-21T10:00:00Z''\<rparr>,
              \<lparr>checkbox = ''- [ ]'', entry_created = ''2025-07-18T10:00:00Z'',
               entry_message = ''first'', entry_author = ''kato'', entry_frame = None,
               entry_status = ''Open''\<rparr>]\<rparr>,
          None)"
  by (simp add: saveCommentsToSingleFile_def sort_comments_def ex_comments_def ex_comment_def
      ex_dates_def ex_figma_file_def frame_lookup_def truthy_def indent_lines_def)

theorem rendered_document_counts_and_order_witness:
  "list_all (\<lambda>c. resolved_at c \<noteq> Some []) ex_comments
   \<and> length ex_comments = 3
   \<and> length (filter (\<lambda>c. resolved_at c \<noteq> None) ex_comments) = 1
   \<and> length (filter (\<lambda>c. resolved_at c = None) ex_comments) = 2
   \<and> (case saveCommentsToSingleFile ex_dates False None (\<lambda>k. ex_env 0 Throws) ex_figma_file ex_comments of
        Inl err \<Rightarrow> False
      | Inr (doc, fo') \<Rightarrow>
          figma_file_key (head_block doc) = ''ABC123XYZ''
        \<and> total_comments (head_block doc) = 3
        \<and> resolved_comments (head_block doc) = 1
        \<and> open_comments (head_block doc) = 2
        \<and> map checkbox (entries doc) = [''- [ ]'', ''- [x]'', ''- [ ]'']
        \<and> map entry_created (entries doc) =
             [''2025-07-20T10:00:00Z'', ''2025-07-19T10:00:00Z'', ''2025-07-18T10:00:00Z''])"
proof -
  have h: "\<forall>c\<in>set ex_comments. resolved_at c \<noteq> Some []"
    by (simp add: ex_comments_def ex_comment_def)
  have n: "length ex_comments = 3"
    "length (filter (\<lambda>c. resolved_at c \<noteq> None) ex_comments) = 1"
    "length (filter (\<lambda>c. resolved_at c = None) ex_comments) = 2"
    by (simp_all add: ex_comments_def ex_comment_def)
  from rendered_document_counts_and_order[OF h, of False None ex_dates "\<lambda>k. ex_env 0 Throws" ex_figma_file]
  obtain doc where
    s: "saveCommentsToSingleFile ex_dates False None (\<lambda>k. ex_env 0 Throws) ex_figma_file ex_comments
          = Inr (doc, None)"
    and c: "total_comments (head_block doc) = length ex_comments"
      "resolved_comments (head_block doc) = length (filter (\<lambda>c. resolved_at c \<noteq> None) ex_comments)"
      "open_comments (head_block doc) = length (filter (\<lambda>c. resolved_at c = None) ex_comments)"
    by blast
  from s ex_comments_rendered have "figma_file_key (head_block doc) = ''ABC123XYZ''"
    "map checkbox (entries doc) = [''- [ ]'', ''- [x]'', ''- [ ]'']"
    "map entry_created (entries doc) =
             [''2025-07-20T10:00:00Z'', ''2025-07-19T10:00:00Z'', ''2025-07-18T10:00:00Z'']"
    by auto
  with s c n h show ?thesis by (simp add: list_all_iff)
qed

text \<open>
  The header counts test the truthiness of \<open>resolved_at\<close> and the checkbox tests
  \<open>resolved_at !== null\<close>; the two differ only on the empty string, which is why the
  property above excludes it.
\<close>

lemma empty_resolution_timestamp:
  "saveCommentsToSingleFile ex_dates False None (\<lambda>k. ex_env 0 Throws) ex_figma_file
      [ex_comment ''c1'' ''2025-07-18T10:00:00Z'' (Some []) ''first''] =
     Inr (\<lparr>head_block =
             \<lparr>title = ''Design - Figma Comments'', figma_file_key = ''ABC123XYZ'',
              total_comments = 1, resolved_comments = 0, open_comments = 1\<rparr>,
           entries =
             [\<lparr>checkbox = ''- [x]'', entry_created = ''2025-07-18T10:00:00Z'',
               entry_message = ''first'', entry_author = ''kato'', entry_frame = None,
               entry_status = ''Resolved: ''\<rparr>]\<rparr>,
          None)"
  by (simp add: saveCommentsToSingleFile_def sort_comments_def ex_comment_def
      ex_dates_def ex_figma_file_def frame_lookup_def truthy_def indent_lines_def)

end
